theory Spec2Isabelle
  imports Complex_Main "HOL-Library.Word"
begin

unbundle bit_operations_syntax

section \<open>JavaScript numbers\<close>

text \<open>
  Every \<^verbatim>\<open>number\<close> of the engine is a JavaScript number, an IEEE 754 binary64 value.
  The model keeps the three special values apart from the finite ones, because
  comparisons and arithmetic treat them differently (\<^verbatim>\<open>NaN === NaN\<close> is false,
  \<^verbatim>\<open>Infinity - Infinity\<close> is NaN). A finite value is the real number it denotes, and
  the four arithmetic operators round their exact result to the nearest binary64
  value, ties to the even significand, and overflow to an infinity.
\<close>

datatype number = Fin real | PInf | NInf | NaN

text \<open>Rounding a real to the nearest integer, a tie going to the even neighbour.\<close>

definition rhe :: "real \<Rightarrow> int" where
  "rhe r = (let f = \<lfloor>r\<rfloor>; d = r - of_int f in
     if d < 1 / 2 then f else if 1 / 2 < d then f + 1 else if even f then f else f + 1)"

text \<open>
  The binary exponent of a value, from \<open>-1022\<close> (which the subnormal values share with
  the smallest normal ones) to \<open>1023\<close>, and the spacing of the binary64 values around
  it: a significand has 53 bits.
\<close>

definition expo :: "real \<Rightarrow> int" where
  "expo x = (if \<bar>x\<bar> < 2 powi (- 1022) then - 1022
             else Max {e \<in> {- 1022 .. 1023}. 2 powi e \<le> \<bar>x\<bar>})"

definition ulp :: "real \<Rightarrow> real" where
  "ulp x = 2 powi (expo x - 52)"

definition rnd :: "real \<Rightarrow> real" where
  "rnd x = of_int (rhe (x / ulp x)) * ulp x"

text \<open>The rounded result of an operation as a number: a result of magnitude \<open>2 ^ 1024\<close> is infinite.\<close>

definition fl :: "real \<Rightarrow> number" where
  "fl x = (if 2 powi 1024 \<le> \<bar>rnd x\<bar> then (if 0 < x then PInf else NInf) else Fin (rnd x))"

text \<open>
  The quotients of two integers of magnitude at most \<open>2 ^ 25\<close>. The parameter values
  that the line clipper computes from integer coordinates are of this form, and
  rounding keeps two different ones apart.
\<close>

definition ratio :: "real \<Rightarrow> bool" where
  "ratio x \<longleftrightarrow> (\<exists>q p :: int. 0 < p \<and> p \<le> 2 ^ 25 \<and> \<bar>q\<bar> \<le> 2 ^ 25 \<and> x = of_int q / of_int p)"

instantiation number :: "{plus, uminus, minus, times, inverse, abs, ord}"
begin

fun uminus_number :: "number \<Rightarrow> number" where
  "uminus_number (Fin a) = Fin (- a)"
| "uminus_number PInf = NInf"
| "uminus_number NInf = PInf"
| "uminus_number NaN = NaN"

fun plus_number :: "number \<Rightarrow> number \<Rightarrow> number" where
  "plus_number (Fin a) (Fin b) = fl (a + b)"
| "plus_number NaN _ = NaN"
| "plus_number _ NaN = NaN"
| "plus_number PInf NInf = NaN"
| "plus_number NInf PInf = NaN"
| "plus_number PInf _ = PInf"
| "plus_number _ PInf = PInf"
| "plus_number NInf _ = NInf"
| "plus_number _ NInf = NInf"

definition minus_number :: "number \<Rightarrow> number \<Rightarrow> number" where
  "minus_number a b = a + (- b)"

fun times_number :: "number \<Rightarrow> number \<Rightarrow> number" where
  "times_number (Fin a) (Fin b) = fl (a * b)"
| "times_number NaN _ = NaN"
| "times_number _ NaN = NaN"
| "times_number (Fin a) PInf = (if a = 0 then NaN else if 0 < a then PInf else NInf)"
| "times_number (Fin a) NInf = (if a = 0 then NaN else if 0 < a then NInf else PInf)"
| "times_number PInf (Fin b) = (if b = 0 then NaN else if 0 < b then PInf else NInf)"
| "times_number NInf (Fin b) = (if b = 0 then NaN else if 0 < b then NInf else PInf)"
| "times_number PInf PInf = PInf"
| "times_number PInf NInf = NInf"
| "times_number NInf PInf = NInf"
| "times_number NInf NInf = PInf"

text \<open>
  The sign of zero is not modelled: both zeros are \<open>Fin 0\<close>. The sign can be observed
  only through a division by zero, which takes the zero as positive here, and every
  division of the engine is behind a test that its divisor is not zero.
\<close>

fun divide_number :: "number \<Rightarrow> number \<Rightarrow> number" where
  "divide_number (Fin a) (Fin b) =
     (if b = 0 then (if a = 0 then NaN else if 0 < a then PInf else NInf)
      else fl (a / b))"
| "divide_number NaN _ = NaN"
| "divide_number _ NaN = NaN"
| "divide_number (Fin a) PInf = Fin 0"
| "divide_number (Fin a) NInf = Fin 0"
| "divide_number PInf (Fin b) = (if 0 \<le> b then PInf else NInf)"
| "divide_number NInf (Fin b) = (if 0 \<le> b then NInf else PInf)"
| "divide_number PInf PInf = NaN"
| "divide_number PInf NInf = NaN"
| "divide_number NInf PInf = NaN"
| "divide_number NInf NInf = NaN"

definition inverse_number :: "number \<Rightarrow> number" where
  "inverse_number a = divide (Fin 1) a"

fun abs_number :: "number \<Rightarrow> number" where
  "abs_number (Fin a) = Fin \<bar>a\<bar>"
| "abs_number PInf = PInf"
| "abs_number NInf = PInf"
| "abs_number NaN = NaN"

text \<open>The relational operators \<^verbatim>\<open><\<close> and \<^verbatim>\<open><=\<close>: false as soon as one side is NaN.\<close>

fun less_number :: "number \<Rightarrow> number \<Rightarrow> bool" where
  "less_number (Fin a) (Fin b) = (a < b)"
| "less_number NaN _ = False"
| "less_number _ NaN = False"
| "less_number PInf _ = False"
| "less_number _ NInf = False"
| "less_number NInf _ = True"
| "less_number _ PInf = True"

fun less_eq_number :: "number \<Rightarrow> number \<Rightarrow> bool" where
  "less_eq_number (Fin a) (Fin b) = (a \<le> b)"
| "less_eq_number NaN _ = False"
| "less_eq_number _ NaN = False"
| "less_eq_number NInf _ = True"
| "less_eq_number _ PInf = True"
| "less_eq_number PInf _ = False"
| "less_eq_number _ NInf = False"

instance ..

end

text \<open>The strict equality \<^verbatim>\<open>===\<close> on numbers: NaN is equal to nothing.\<close>

definition strict_eq :: "number \<Rightarrow> number \<Rightarrow> bool" where
  "strict_eq a b = (a \<noteq> NaN \<and> a = b)"

fun Math_floor :: "number \<Rightarrow> number" where
  "Math_floor (Fin a) = Fin (of_int \<lfloor>a\<rfloor>)"
| "Math_floor v = v"

fun Math_ceil :: "number \<Rightarrow> number" where
  "Math_ceil (Fin a) = Fin (of_int \<lceil>a\<rceil>)"
| "Math_ceil v = v"

definition Math_abs :: "number \<Rightarrow> number" where
  "Math_abs a = \<bar>a\<bar>"

definition Math_max :: "number \<Rightarrow> number \<Rightarrow> number" where
  "Math_max a b = (if a = NaN \<or> b = NaN then NaN else if a < b then b else a)"

definition Math_min :: "number \<Rightarrow> number \<Rightarrow> number" where
  "Math_min a b = (if a = NaN \<or> b = NaN then NaN else if b < a then b else a)"

text \<open>The numbers with an integer value, as the rasterisers have them after \<^verbatim>\<open>Math.floor\<close>.\<close>

definition Whole :: "int \<Rightarrow> number" where
  "Whole k = Fin (of_int k)"

subsection \<open>32-bit integer operators\<close>

text \<open>
  The bitwise operators convert their operands with ToInt32 (truncate towards zero,
  wrap modulo \<open>2 ^ 32\<close>; NaN and the infinities become 0), work on the 32 bits and give
  back the signed value. A shift count is taken modulo 32.
\<close>

type_synonym int32 = "32 word"

definition trunc :: "real \<Rightarrow> int" where
  "trunc r = (if r < 0 then - \<lfloor>- r\<rfloor> else \<lfloor>r\<rfloor>)"

fun ToInt32 :: "number \<Rightarrow> int32" where
  "ToInt32 (Fin a) = word_of_int (trunc a)"
| "ToInt32 v = 0"

definition of_int32 :: "int32 \<Rightarrow> number" where
  "of_int32 w = Fin (of_int (sint w))"

definition shl :: "number \<Rightarrow> nat \<Rightarrow> number" where
  "shl a n = of_int32 (push_bit (n mod 32) (ToInt32 a))"

definition sar :: "number \<Rightarrow> nat \<Rightarrow> number" where
  "sar a n = of_int32 (signed_drop_bit (n mod 32) (ToInt32 a))"

definition band :: "number \<Rightarrow> number \<Rightarrow> number" where
  "band a b = of_int32 (ToInt32 a AND ToInt32 b)"

definition bor :: "number \<Rightarrow> number \<Rightarrow> number" where
  "bor a b = of_int32 (ToInt32 a OR ToInt32 b)"

section \<open>helper.ts\<close>

definition clamp :: "number \<Rightarrow> number \<Rightarrow> number \<Rightarrow> number" where
  "clamp v lo hi = Math_min hi (Math_max lo v)"

section \<open>color4.ts\<close>

text \<open>
  The four channels, the cache slot (\<open>None\<close> is \<^verbatim>\<open>null\<close>) and the caching flag. The
  methods that mutate the object return the updated object; \<open>toAABBGGRR\<close> and
  \<open>toAARRGGBB\<close> return the packed value together with it.
\<close>

record Color4 =
  alpha :: number
  red :: number
  green :: number
  blue :: number
  cache :: "number option"
  caching :: bool

text \<open>The constructor, with the defaults of absent parameters filled in by the caller.\<close>

definition Color4_new :: "number \<Rightarrow> number \<Rightarrow> number \<Rightarrow> number \<Rightarrow> bool \<Rightarrow> Color4" where
  "Color4_new a r g b c =
     \<lparr>alpha = clamp a (Fin 0) (Fin 255), red = clamp r (Fin 0) (Fin 255),
      green = clamp g (Fin 0) (Fin 255), blue = clamp b (Fin 0) (Fin 255),
      cache = None, caching = c\<rparr>"

definition fromAABBGGRR :: "Color4 \<Rightarrow> number \<Rightarrow> Color4" where
  "fromAABBGGRR this color =
     this\<lparr>alpha := band (sar color 24) (Fin 255),
          red := band (sar color 0) (Fin 255),
          green := band (sar color 8) (Fin 255),
          blue := band (sar color 16) (Fin 255),
          cache := Some color\<rparr>"

definition fromARRGGBB :: "Color4 \<Rightarrow> number \<Rightarrow> Color4" where
  "fromARRGGBB this color =
     this\<lparr>alpha := band (sar color 24) (Fin 255),
          red := band (sar color 16) (Fin 255),
          green := band (sar color 8) (Fin 255),
          blue := band (sar color 0) (Fin 255),
          cache := Some color\<rparr>"

definition getAABBGGRR :: "Color4 \<Rightarrow> number" where
  "getAABBGGRR this =
     bor (bor (bor (shl (alpha this) 24) (shl (red this) 0)) (shl (green this) 8))
       (shl (blue this) 16)"

definition getAARRGGBB :: "Color4 \<Rightarrow> number" where
  "getAARRGGBB this =
     bor (bor (bor (shl (alpha this) 24) (shl (red this) 16)) (shl (green this) 8))
       (shl (blue this) 0)"

definition toAABBGGRR :: "Color4 \<Rightarrow> number \<times> Color4" where
  "toAABBGGRR this =
     (let this' = (if caching this \<and> cache this = None
                   then this\<lparr>cache := Some (getAABBGGRR this)\<rparr> else this)
      in (case cache this' of Some v \<Rightarrow> v | None \<Rightarrow> getAABBGGRR this', this'))"

definition toAARRGGBB :: "Color4 \<Rightarrow> number \<times> Color4" where
  "toAARRGGBB this =
     (let this' = (if caching this \<and> cache this = None
                   then this\<lparr>cache := Some (getAARRGGBB this)\<rparr> else this)
      in (case cache this' of Some v \<Rightarrow> v | None \<Rightarrow> getAARRGGBB this', this'))"

text \<open>The four channel values of a colour, for statements about all of them at once.\<close>

definition channels :: "Color4 \<Rightarrow> number \<times> number \<times> number \<times> number" where
  "channels c = (alpha c, red c, green c, blue c)"

section \<open>clipping.ts\<close>

text \<open>
  The bounds live in an \<^verbatim>\<open>Int16Array\<close> of four cells: the constructor's arguments are
  truncated and wrapped to 16 bits, and the getters read the signed values back.
\<close>

type_synonym int16 = "16 word"

fun ToInt16 :: "number \<Rightarrow> int16" where
  "ToInt16 (Fin a) = word_of_int (trunc a)"
| "ToInt16 v = 0"

definition of_int16 :: "int16 \<Rightarrow> number" where
  "of_int16 w = Fin (of_int (sint w))"

record Clipping =
  bounds :: "int16 list"

definition Clipping_new :: "number \<Rightarrow> number \<Rightarrow> number \<Rightarrow> number \<Rightarrow> Clipping" where
  "Clipping_new minX' minY' maxX' maxY' =
     \<lparr>bounds = [ToInt16 minX', ToInt16 minY', ToInt16 maxX', ToInt16 maxY']\<rparr>"

definition minX :: "Clipping \<Rightarrow> number" where
  "minX this = of_int16 (bounds this ! 0)"

definition minY :: "Clipping \<Rightarrow> number" where
  "minY this = of_int16 (bounds this ! 1)"

definition maxX :: "Clipping \<Rightarrow> number" where
  "maxX this = of_int16 (bounds this ! 2)"

definition maxY :: "Clipping \<Rightarrow> number" where
  "maxY this = of_int16 (bounds this ! 3)"

definition inside :: "Clipping \<Rightarrow> number \<Rightarrow> number \<Rightarrow> bool" where
  "inside this x y =
     (of_int16 (bounds this ! 0) \<le> x \<and> x \<le> of_int16 (bounds this ! 2) \<and>
      of_int16 (bounds this ! 1) \<le> y \<and> y \<le> of_int16 (bounds this ! 3))"

definition outside :: "Clipping \<Rightarrow> number \<Rightarrow> number \<Rightarrow> bool" where
  "outside this x y =
     (x < of_int16 (bounds this ! 0) \<or> of_int16 (bounds this ! 2) \<le> x \<or>
      y < of_int16 (bounds this ! 1) \<or> of_int16 (bounds this ! 3) \<le> y)"

section \<open>point2d.ts and triangle2d.ts\<close>

text \<open>
  The fields \<^verbatim>\<open>x\<close>, \<^verbatim>\<open>y\<close> of a point are \<open>px\<close>, \<open>py\<close> here, and the vertices
  \<^verbatim>\<open>a\<close>, \<^verbatim>\<open>b\<close>, \<^verbatim>\<open>c\<close> of a triangle are \<open>tri_a\<close>, \<open>tri_b\<close>, \<open>tri_c\<close>, so that the
  short names stay free for variables.
\<close>

record Point2D =
  px :: number
  py :: number

record Triangle2D =
  tri_a :: Point2D
  tri_b :: Point2D
  tri_c :: Point2D

definition rasterOrder :: "Triangle2D \<Rightarrow> Point2D \<times> Point2D \<times> Point2D" where
  "rasterOrder this =
     (let v0 = tri_a this; v1 = tri_b this; v2 = tri_c this;
          (v0, v1) = (if py v1 < py v0 then (v1, v0) else (v0, v1));
          (v1, v2) = (if py v2 < py v1 then (v2, v1) else (v1, v2));
          (v0, v1) = (if py v1 < py v0 then (v1, v0) else (v0, v1));
          (v0, v1) = (if strict_eq (py v0) (py v1) \<and> px v1 < px v0 then (v1, v0) else (v0, v1));
          (v1, v2) = (if strict_eq (py v1) (py v2) \<and> px v2 < px v1 then (v2, v1) else (v1, v2))
      in (v0, v1, v2))"

section \<open>blitter.ts and pixel.ts\<close>

text \<open>
  The blitter's dimensions and clip rectangle. The back buffer is a \<^verbatim>\<open>Uint32Array\<close>:
  a store at an index that is not an integer inside the array is ignored, and the
  stored number is wrapped to 32 bits.
\<close>

record Blitter =
  width :: nat
  height :: nat
  clipping :: Clipping

type_synonym uint32 = "32 word"

definition store :: "uint32 list \<Rightarrow> number \<Rightarrow> number \<Rightarrow> uint32 list" where
  "store backbuffer i v =
     (case i of
        Fin r \<Rightarrow>
          if of_int \<lfloor>r\<rfloor> = r \<and> 0 \<le> r \<and> r < of_nat (length backbuffer)
          then backbuffer[nat \<lfloor>r\<rfloor> := ToInt32 v] else backbuffer
      | _ \<Rightarrow> backbuffer)"

text \<open>
  What a drawing call can change: the colour object (its cache) and the back buffer.
  \<open>st_writes\<close> is a ghost log of the coordinates at which the pixel-write primitive
  \<open>setPixel\<close> performed its store, in order.
\<close>

record draw_state =
  st_color :: Color4
  st_buffer :: "uint32 list"
  st_writes :: "(number \<times> number) list"

definition setPixel :: "Blitter \<Rightarrow> number \<Rightarrow> number \<Rightarrow> bool \<Rightarrow> draw_state \<Rightarrow> draw_state" where
  "setPixel blitter x y clip st =
     (if clip \<and> (x < minX (clipping blitter) \<or> maxX (clipping blitter) \<le> x \<or>
                  y < minY (clipping blitter) \<or> maxY (clipping blitter) \<le> y)
      then st
      else
        let (v, color') = toAABBGGRR (st_color st)
        in st\<lparr>st_color := color',
              st_buffer := store (st_buffer st) (y * Fin (of_nat (width blitter)) + x) v,
              st_writes := st_writes st @ [(x, y)]\<rparr>)"

definition Blitter_setPixel :: "Blitter \<Rightarrow> number \<Rightarrow> number \<Rightarrow> bool \<Rightarrow> draw_state \<Rightarrow> draw_state" where
  "Blitter_setPixel this x y clip st = setPixel this (Math_floor x) (Math_floor y) clip st"

section \<open>clip.ts\<close>

text \<open>
  \<open>testEdge\<close> reads and updates the interval \<open>(tMin, tMax)\<close> of the enclosing call; it
  returns its verdict together with the interval.
\<close>

definition testEdge :: "number \<Rightarrow> number \<Rightarrow> number \<times> number \<Rightarrow> bool \<times> number \<times> number" where
  "testEdge delta distance tt =
     (let (tMin, tMax) = tt in
      if strict_eq delta (Fin 0) then (Fin 0 \<le> distance, tMin, tMax)
      else
        let t = distance / delta in
        if delta < Fin 0 then
          (if tMax < t then (False, tMin, tMax)
           else if tMin < t then (True, t, tMax) else (True, tMin, tMax))
        else
          (if t < tMin then (False, tMin, tMax)
           else if t < tMax then (True, tMin, t) else (True, tMin, tMax)))"

definition clipLineLiangBarsky :: "Point2D \<Rightarrow> Point2D \<Rightarrow> Clipping \<Rightarrow> (Point2D \<times> Point2D) option" where
  "clipLineLiangBarsky a b clipping' =
     (let deltaX = px b - px a;
          deltaY = py b - py a;
          (ok1, tt1) = testEdge (- deltaX) (px a - minX clipping') (Fin 0, Fin 1)
      in if \<not> ok1 then None else
      let (ok2, tt2) = testEdge deltaX ((maxX clipping' - Fin 1) - px a) tt1
      in if \<not> ok2 then None else
      let (ok3, tt3) = testEdge (- deltaY) (py a - minY clipping') tt2
      in if \<not> ok3 then None else
      let (ok4, tMin, tMax) = testEdge deltaY ((maxY clipping' - Fin 1) - py a) tt3
      in if \<not> ok4 then None else
        Some (\<lparr>px = px a + tMin * deltaX, py = py a + tMin * deltaY\<rparr>,
              \<lparr>px = px a + tMax * deltaX, py = py a + tMax * deltaY\<rparr>))"

section \<open>line.ts\<close>

text \<open>
  The loops of the two rasterisers may run forever, so they return an option: \<open>None\<close>
  is a call that never returns.
\<close>

partial_function (option) bresenham_loop ::
  "Blitter \<Rightarrow> number \<Rightarrow> number \<Rightarrow> number \<Rightarrow> number \<Rightarrow> number \<Rightarrow> number \<Rightarrow> number \<Rightarrow> number \<Rightarrow>
   number \<Rightarrow> draw_state \<Rightarrow> draw_state option"
where
  "bresenham_loop blitter x0 y0 x1 y1 deltaX deltaY stepX stepY error st =
     (if strict_eq x0 x1 \<and> strict_eq y0 y1 then Some (Blitter_setPixel blitter x0 y0 False st)
      else
        let doubleError = Fin 2 * error;
            error' = (if - deltaY < doubleError then error - deltaY else error);
            x0' = (if - deltaY < doubleError then x0 + stepX else x0);
            error'' = (if doubleError < deltaX then error' + deltaX else error');
            y0' = (if doubleError < deltaX then y0 + stepY else y0)
        in bresenham_loop blitter x0' y0' x1 y1 deltaX deltaY stepX stepY error''
             (Blitter_setPixel blitter x0 y0 False st))"

text \<open>
  Both rasterisers start with the same optional clipping step, which either rejects
  the segment (\<open>None\<close>: the call returns without drawing) or replaces the endpoints.
\<close>

definition clipped :: "Blitter \<Rightarrow> Point2D \<Rightarrow> Point2D \<Rightarrow> bool \<Rightarrow> (Point2D \<times> Point2D) option" where
  "clipped blitter a b clip =
     (if clip then clipLineLiangBarsky a b (clipping blitter) else Some (a, b))"

definition drawLineBresenham ::
  "Blitter \<Rightarrow> Point2D \<Rightarrow> Point2D \<Rightarrow> bool \<Rightarrow> draw_state \<Rightarrow> draw_state option"
where
  "drawLineBresenham blitter a b clip st =
     (case clipped blitter a b clip of
        None \<Rightarrow> Some st
      | Some (a, b) \<Rightarrow>
          let x0 = Math_floor (px a); y0 = Math_floor (py a);
              x1 = Math_floor (px b); y1 = Math_floor (py b);
              deltaX = Math_abs (x1 - x0); deltaY = Math_abs (y1 - y0);
              stepX = (if x0 < x1 then Fin 1 else Fin (- 1));
              stepY = (if y0 < y1 then Fin 1 else Fin (- 1));
              error = deltaX - deltaY
          in bresenham_loop blitter x0 y0 x1 y1 deltaX deltaY stepX stepY error st)"

partial_function (option) dda_loop ::
  "Blitter \<Rightarrow> number \<Rightarrow> number \<Rightarrow> number \<Rightarrow> number \<Rightarrow> number \<Rightarrow> number \<Rightarrow> draw_state \<Rightarrow>
   draw_state option"
where
  "dda_loop blitter i steps x y stepX stepY st =
     (if i \<le> steps
      then dda_loop blitter (i + Fin 1) steps (x + stepX) (y + stepY) stepX stepY
             (Blitter_setPixel blitter x y False st)
      else Some st)"

definition drawLineDDA ::
  "Blitter \<Rightarrow> Point2D \<Rightarrow> Point2D \<Rightarrow> bool \<Rightarrow> draw_state \<Rightarrow> draw_state option"
where
  "drawLineDDA blitter a b clip st =
     (case clipped blitter a b clip of
        None \<Rightarrow> Some st
      | Some (a, b) \<Rightarrow>
          let deltaX = px b - px a; deltaY = py b - py a;
              steps = Math_max (Math_abs deltaX) (Math_abs deltaY)
          in if strict_eq steps (Fin 0)
             then Some (Blitter_setPixel blitter (px a) (py a) clip st)
             else dda_loop blitter (Fin 0) steps (px a) (py a) (deltaX / steps) (deltaY / steps) st)"

section \<open>flat-scanline.ts\<close>

partial_function (option) span_loop ::
  "number \<Rightarrow> number \<Rightarrow> number \<Rightarrow> number \<Rightarrow> uint32 list \<Rightarrow> uint32 list option"
where
  "span_loop x xEnd position color backbuffer =
     (if x < xEnd
      then span_loop (x + Fin 1) xEnd position color (store backbuffer (position + x) color)
      else Some backbuffer)"

partial_function (option) scanline_loop ::
  "number \<Rightarrow> number \<Rightarrow> number \<Rightarrow> number \<Rightarrow> number \<Rightarrow> number \<Rightarrow> number \<Rightarrow> number \<Rightarrow> number \<Rightarrow>
   uint32 list \<Rightarrow> uint32 list option"
where
  "scanline_loop width' y clampedYEnd position xLeft xRight slopeLeft slopeRight color backbuffer =
     (if y < clampedYEnd
      then Option.bind
             (span_loop (Math_max (Fin 0) (Math_ceil xLeft)) (Math_min width' (Math_ceil xRight))
                position color backbuffer)
             (\<lambda>backbuffer'.
                scanline_loop width' (y + Fin 1) clampedYEnd (position + width')
                  (xLeft + slopeLeft) (xRight + slopeRight) slopeLeft slopeRight color backbuffer')
      else Some backbuffer)"

definition rasterScanlines ::
  "number \<Rightarrow> number \<Rightarrow> number \<Rightarrow> number \<Rightarrow> number \<Rightarrow> number \<Rightarrow> number \<Rightarrow> number \<Rightarrow> number \<Rightarrow>
   uint32 list \<Rightarrow> uint32 list option"
where
  "rasterScanlines width' height' yStart yEnd xLeft xRight slopeLeft slopeRight color backbuffer =
     (let clampedYStart = Math_max (Fin 0) yStart;
          clampedYEnd = Math_min height' yEnd;
          position = clampedYStart * width'
      in scanline_loop width' clampedYStart clampedYEnd position xLeft xRight slopeLeft slopeRight
           color backbuffer)"

definition fillFlatTop ::
  "number \<Rightarrow> number \<Rightarrow> Point2D \<Rightarrow> Point2D \<Rightarrow> Point2D \<Rightarrow> number \<Rightarrow> uint32 list \<Rightarrow> uint32 list option"
where
  "fillFlatTop width' height' v0 v1 v2 color backbuffer =
     (let dyLeft = py v2 - py v0; dyRight = py v2 - py v1
      in if strict_eq dyLeft (Fin 0) \<or> strict_eq dyRight (Fin 0) then Some backbuffer
         else
           let slopeLeft = (px v2 - px v0) / dyLeft;
               slopeRight = (px v2 - px v1) / dyRight;
               yStart = Math_ceil (py v0);
               yEnd = Math_ceil (py v2)
           in rasterScanlines width' height' yStart yEnd (px v0) (px v1) slopeLeft slopeRight
                color backbuffer)"

definition fillFlatBottom ::
  "number \<Rightarrow> number \<Rightarrow> Point2D \<Rightarrow> Point2D \<Rightarrow> Point2D \<Rightarrow> number \<Rightarrow> uint32 list \<Rightarrow> uint32 list option"
where
  "fillFlatBottom width' height' v0 v1 v2 color backbuffer =
     (let dyLeft = py v1 - py v0; dyRight = py v2 - py v0
      in if strict_eq dyLeft (Fin 0) \<or> strict_eq dyRight (Fin 0) then Some backbuffer
         else
           let slopeLeft = (px v1 - px v0) / dyLeft;
               slopeRight = (px v2 - px v0) / dyRight;
               yStart = Math_ceil (py v0);
               yEnd = Math_ceil (py v1)
           in rasterScanlines width' height' yStart yEnd (px v0) (px v0) slopeLeft slopeRight
                color backbuffer)"

definition fillFlatScanline :: "Blitter \<Rightarrow> Triangle2D \<Rightarrow> draw_state \<Rightarrow> draw_state option" where
  "fillFlatScanline blitter triangle st =
     (let (v0, v1, v2) = rasterOrder triangle;
          width' = Fin (of_nat (width blitter));
          height' = Fin (of_nat (height blitter));
          (colorUnpacked, color') = toAABBGGRR (st_color st);
          st' = st\<lparr>st_color := color'\<rparr>
      in map_option (\<lambda>backbuffer. st'\<lparr>st_buffer := backbuffer\<rparr>)
          (if strict_eq (py v1) (py v2)
           then fillFlatBottom width' height' v0 v1 v2 colorUnpacked (st_buffer st')
           else if strict_eq (py v0) (py v1)
           then fillFlatTop width' height' v0 v1 v2 colorUnpacked (st_buffer st')
           else
             let t = (py v1 - py v0) / (py v2 - py v0);
                 v3 = \<lparr>px = px v0 + t * (px v2 - px v0), py = py v1\<rparr>;
                 (left, right) = (if px v1 < px v3 then (v1, v3) else (v3, v1))
             in Option.bind
                  (fillFlatBottom width' height' v0 left right colorUnpacked (st_buffer st'))
                  (\<lambda>backbuffer. fillFlatTop width' height' left right v2 colorUnpacked backbuffer)))"

section \<open>Properties of the colour packing\<close>

lemma byte_bits: "(x :: 32 word) \<le> 255 \<Longrightarrow> bit x n \<Longrightarrow> n < 8"
proof -
  assume a: "x \<le> 255" and b: "bit x n"
  have "x < 2 ^ 8" using a by (simp add: word_less_alt word_le_def)
  then have "x AND mask 8 = x" by (rule less_mask_eq)
  then have "bit (x AND mask 8) n" using b by simp
  then show ?thesis by (simp add: bit_simps)
qed

lemma m255: "(255 :: 32 word) = mask 8" by (simp add: mask_eq_exp_minus_1)

lemma byte_bits': "(x :: 32 word) \<le> mask 8 \<Longrightarrow> bit x n \<Longrightarrow> n < 8"
  using byte_bits by (simp add: m255 [symmetric])

lemma unpack_a: "A \<le> 255 \<Longrightarrow> R \<le> 255 \<Longrightarrow> G \<le> 255 \<Longrightarrow> B \<le> 255 \<Longrightarrow>
  signed_drop_bit 24 (push_bit 24 A OR R OR push_bit 8 G OR push_bit 16 B) AND 255 = (A :: 32 word)"
  unfolding m255
  apply (rule bit_word_eqI)
  apply (auto simp add: bit_simps dest: byte_bits')
  done

lemma unpack_r: "A \<le> 255 \<Longrightarrow> R \<le> 255 \<Longrightarrow> G \<le> 255 \<Longrightarrow> B \<le> 255 \<Longrightarrow>
  (push_bit 24 A OR R OR push_bit 8 G OR push_bit 16 B) AND 255 = (R :: 32 word)"
  unfolding m255
  apply (rule bit_word_eqI)
  apply (auto simp add: bit_simps dest: byte_bits')
  done

lemma unpack_g: "A \<le> 255 \<Longrightarrow> R \<le> 255 \<Longrightarrow> G \<le> 255 \<Longrightarrow> B \<le> 255 \<Longrightarrow>
  signed_drop_bit 8 (push_bit 24 A OR R OR push_bit 8 G OR push_bit 16 B) AND 255 = (G :: 32 word)"
  unfolding m255
  apply (rule bit_word_eqI)
  apply (auto simp add: bit_simps dest: byte_bits')
  done

lemma unpack_b: "A \<le> 255 \<Longrightarrow> R \<le> 255 \<Longrightarrow> G \<le> 255 \<Longrightarrow> B \<le> 255 \<Longrightarrow>
  signed_drop_bit 16 (push_bit 24 A OR R OR push_bit 8 G OR push_bit 16 B) AND 255 = (B :: 32 word)"
  unfolding m255
  apply (rule bit_word_eqI)
  apply (auto simp add: bit_simps dest: byte_bits')
  done

lemma clamp_byte: "0 \<le> a \<Longrightarrow> a \<le> 255 \<Longrightarrow> clamp (Fin a) (Fin 0) (Fin 255) = Fin a"
  by (simp add: clamp_def Math_min_def Math_max_def)

lemma trunc_of_int: "trunc (of_int k) = k"
  by (simp add: trunc_def)

lemma ToInt32_of_int32: "ToInt32 (of_int32 w) = w"
  unfolding of_int32_def ToInt32.simps trunc_of_int by simp

lemma byte_word_le: "0 \<le> a \<Longrightarrow> a \<le> 255 \<Longrightarrow> (word_of_int a :: 32 word) \<le> 255"
  by (simp add: word_le_def uint_word_of_int take_bit_int_eq_self)

lemma byte_sint: "0 \<le> a \<Longrightarrow> a \<le> 255 \<Longrightarrow> sint (word_of_int a :: 32 word) = a"
  by (simp add: sint_uint uint_word_of_int take_bit_int_eq_self signed_take_bit_int_eq_self)

lemma unpack_channel:
  assumes "0 \<le> a" "a \<le> 255"
  shows "of_int32 (word_of_int a) = Fin (of_int a)"
  unfolding of_int32_def byte_sint [OF assms] ..

lemma ToInt32_int: "ToInt32 (Fin (of_int k)) = word_of_int k"
  unfolding ToInt32.simps trunc_of_int ..

lemma ToInt32_255: "ToInt32 (Fin 255) = 255"
  using ToInt32_int [of 255] by simp

lemma unpack_a2: "A \<le> 255 \<Longrightarrow> R \<le> 255 \<Longrightarrow> G \<le> 255 \<Longrightarrow> B \<le> 255 \<Longrightarrow>
  signed_drop_bit 24 (push_bit 24 A OR push_bit 16 R OR push_bit 8 G OR B) AND 255 = (A :: 32 word)"
  using unpack_a [of A B G R] by (simp add: ac_simps)

lemma unpack_r2: "A \<le> 255 \<Longrightarrow> R \<le> 255 \<Longrightarrow> G \<le> 255 \<Longrightarrow> B \<le> 255 \<Longrightarrow>
  signed_drop_bit 16 (push_bit 24 A OR push_bit 16 R OR push_bit 8 G OR B) AND 255 = (R :: 32 word)"
  using unpack_b [of A B G R] by (simp add: ac_simps)

lemma unpack_g2: "A \<le> 255 \<Longrightarrow> R \<le> 255 \<Longrightarrow> G \<le> 255 \<Longrightarrow> B \<le> 255 \<Longrightarrow>
  signed_drop_bit 8 (push_bit 24 A OR push_bit 16 R OR push_bit 8 G OR B) AND 255 = (G :: 32 word)"
  using unpack_g [of A B G R] by (simp add: ac_simps)

lemma unpack_b2: "A \<le> 255 \<Longrightarrow> R \<le> 255 \<Longrightarrow> G \<le> 255 \<Longrightarrow> B \<le> 255 \<Longrightarrow>
  (push_bit 24 A OR push_bit 16 R OR push_bit 8 G OR B) AND 255 = (B :: 32 word)"
  using unpack_r [of A B G R] by (simp add: ac_simps)

lemma Color4_new_bytes:
  assumes "0 \<le> a" "a \<le> 255" "0 \<le> r" "r \<le> 255" "0 \<le> g" "g \<le> 255" "0 \<le> b" "b \<le> 255"
  shows "Color4_new (Fin (of_int a)) (Fin (of_int r)) (Fin (of_int g)) (Fin (of_int b)) f =
    \<lparr>alpha = Fin (of_int a), red = Fin (of_int r), green = Fin (of_int g), blue = Fin (of_int b),
     cache = None, caching = f\<rparr>"
  using assms by (simp add: Color4_new_def clamp_byte)

lemma toAABBGGRR_fresh: "cache c = None \<Longrightarrow> fst (toAABBGGRR c) = getAABBGGRR c"
  by (simp add: toAABBGGRR_def Let_def)

lemma toAARRGGBB_fresh: "cache c = None \<Longrightarrow> fst (toAARRGGBB c) = getAARRGGBB c"
  by (simp add: toAARRGGBB_def Let_def)

lemma roundtrip_AABBGGRR:
  assumes "0 \<le> a" "a \<le> 255" "0 \<le> r" "r \<le> 255" "0 \<le> g" "g \<le> 255" "0 \<le> b" "b \<le> 255"
    and c: "c = \<lparr>alpha = Fin (of_int a), red = Fin (of_int r), green = Fin (of_int g), blue = Fin (of_int b),
     cache = None, caching = f\<rparr>"
  shows "channels (fromAABBGGRR d (getAABBGGRR c)) = channels c"
proof -
  note le = byte_word_le [OF assms(1,2)] byte_word_le [OF assms(3,4)]
    byte_word_le [OF assms(5,6)] byte_word_le [OF assms(7,8)]
  have p: "getAABBGGRR c = of_int32 (push_bit 24 (word_of_int a) OR push_bit 0 (word_of_int r)
      OR push_bit 8 (word_of_int g) OR push_bit 16 (word_of_int b))"
    unfolding getAABBGGRR_def shl_def bor_def ToInt32_of_int32 c by (simp add: trunc_of_int or.assoc)
  show ?thesis
    unfolding p fromAABBGGRR_def channels_def band_def sar_def ToInt32_of_int32 ToInt32_255
    using le assms(1-8)
    by (simp add: unpack_a unpack_r unpack_g unpack_b unpack_channel c)
qed

lemma roundtrip_AARRGGBB:
  assumes "0 \<le> a" "a \<le> 255" "0 \<le> r" "r \<le> 255" "0 \<le> g" "g \<le> 255" "0 \<le> b" "b \<le> 255"
    and c: "c = \<lparr>alpha = Fin (of_int a), red = Fin (of_int r), green = Fin (of_int g), blue = Fin (of_int b),
     cache = None, caching = f\<rparr>"
  shows "channels (fromARRGGBB d (getAARRGGBB c)) = channels c"
proof -
  note le = byte_word_le [OF assms(1,2)] byte_word_le [OF assms(3,4)]
    byte_word_le [OF assms(5,6)] byte_word_le [OF assms(7,8)]
  have p: "getAARRGGBB c = of_int32 (push_bit 24 (word_of_int a) OR push_bit 16 (word_of_int r)
      OR push_bit 8 (word_of_int g) OR push_bit 0 (word_of_int b))"
    unfolding getAARRGGBB_def shl_def bor_def ToInt32_of_int32 c by (simp add: trunc_of_int or.assoc)
  show ?thesis
    unfolding p fromARRGGBB_def channels_def band_def sar_def ToInt32_of_int32 ToInt32_255
    using le assms(1-8)
    by (simp add: unpack_a2 unpack_r2 unpack_g2 unpack_b2 unpack_channel c)
qed

text \<open>
  Claim C10, as stated, at a channel value in \<open>[0, 255]\<close> that is not an integer. The
  constructor only clamps, so a colour constructed with green \<open>12.5\<close> keeps that value;
  the shift that packs it truncates it to 12, and unpacking gives 12 back, in both
  channel orders.
\<close>

theorem roundtrip_truncates_fraction:
  "channels (Color4_new (Fin 255) (Fin 0) (Fin (25 / 2)) (Fin 0) True)
     = (Fin 255, Fin 0, Fin (25 / 2), Fin 0)
   \<and> channels (fromAABBGGRR (Color4_new (Fin 255) (Fin 0) (Fin 0) (Fin 0) True)
        (fst (toAABBGGRR (Color4_new (Fin 255) (Fin 0) (Fin (25 / 2)) (Fin 0) True))))
     = (Fin 255, Fin 0, Fin 12, Fin 0)
   \<and> channels (fromARRGGBB (Color4_new (Fin 255) (Fin 0) (Fin 0) (Fin 0) True)
        (fst (toAARRGGBB (Color4_new (Fin 255) (Fin 0) (Fin (25 / 2)) (Fin 0) True))))
     = (Fin 255, Fin 0, Fin 12, Fin 0)"
  by (simp add: toAABBGGRR_def toAARRGGBB_def fromAABBGGRR_def fromARRGGBB_def Color4_new_def
      getAABBGGRR_def getAARRGGBB_def Let_def band_def sar_def shl_def bor_def of_int32_def
      trunc_def channels_def clamp_def Math_min_def Math_max_def)

text \<open>
  Claim C10, amended. A colour constructed from four integer channel values in
  \<open>0..255\<close> keeps these values, and packing it and unpacking the packed number into any
  colour object gives the same four channels back, in the order AABBGGRR
  (\<open>toAABBGGRR\<close>, \<open>fromAABBGGRR\<close>) and in the order AARRGGBB (\<open>toAARRGGBB\<close>,
  \<open>fromARRGGBB\<close>), each on the freshly constructed colour.
\<close>

theorem pack_unpack_roundtrip:
  fixes a r g b :: int
  assumes "0 \<le> a \<and> a \<le> 255" and "0 \<le> r \<and> r \<le> 255"
    and "0 \<le> g \<and> g \<le> 255" and "0 \<le> b \<and> b \<le> 255"
  shows "let c = Color4_new (Fin (of_int a)) (Fin (of_int r)) (Fin (of_int g)) (Fin (of_int b)) f
         in channels c = (Fin (of_int a), Fin (of_int r), Fin (of_int g), Fin (of_int b))
          \<and> channels (fromAABBGGRR d (fst (toAABBGGRR c))) = channels c
          \<and> channels (fromARRGGBB d (fst (toAARRGGBB c))) = channels c"
proof -
  let ?c = "\<lparr>alpha = Fin (of_int a), red = Fin (of_int r), green = Fin (of_int g), blue = Fin (of_int b),
     cache = None, caching = f\<rparr>"
  have n: "Color4_new (Fin (of_int a)) (Fin (of_int r)) (Fin (of_int g)) (Fin (of_int b)) f = ?c"
    using assms by (simp add: Color4_new_bytes)
  have 1: "channels (fromAABBGGRR d (getAABBGGRR ?c)) = channels ?c"
    using assms by (intro roundtrip_AABBGGRR [where f = f and a = a and r = r and g = g and b = b]) simp_all
  have 2: "channels (fromARRGGBB d (getAARRGGBB ?c)) = channels ?c"
    using assms by (intro roundtrip_AARRGGBB [where f = f and a = a and r = r and g = g and b = b]) simp_all
  show ?thesis
    unfolding n Let_def using 1 2 by (simp add: toAABBGGRR_fresh toAARRGGBB_fresh channels_def)
qed

theorem pack_unpack_roundtrip_witness:
  "(0 \<le> (255::int) \<and> (255::int) \<le> 255) \<and> (0 \<le> (17::int) \<and> (17::int) \<le> 255)
   \<and> (0 \<le> (34::int) \<and> (34::int) \<le> 255) \<and> (0 \<le> (51::int) \<and> (51::int) \<le> 255)
   \<and> channels (fromAABBGGRR (Color4_new (Fin 255) (Fin 0) (Fin 0) (Fin 0) True)
        (fst (toAABBGGRR (Color4_new (Fin 255) (Fin 17) (Fin 34) (Fin 51) True))))
      = (Fin 255, Fin 17, Fin 34, Fin 51)
   \<and> channels (fromARRGGBB (Color4_new (Fin 255) (Fin 0) (Fin 0) (Fin 0) True)
        (fst (toAARRGGBB (Color4_new (Fin 255) (Fin 17) (Fin 34) (Fin 51) True))))
      = (Fin 255, Fin 17, Fin 34, Fin 51)"
  using pack_unpack_roundtrip [of 255 17 34 51 True "Color4_new (Fin 255) (Fin 0) (Fin 0) (Fin 0) True"]
  by (simp add: Let_def)

text \<open>
  Claim C1. After a packed number was ingested in one channel order, a request for the
  other order should give the packing of the current channels in the requested order.
  The cache slot does not record its order: \<open>fromARRGGBB\<close> at \<^verbatim>\<open>0xFF112233\<close> sets the
  channels to (255, 17, 34, 51), whose AABBGGRR packing is \<^verbatim>\<open>0xFF332211\<close> (the signed
  value \<open>-13426159\<close>), but \<open>toAABBGGRR\<close> returns the ingested number. In the same way a
  colour that was packed with \<open>toAABBGGRR\<close> answers \<open>toAARRGGBB\<close> with the AABBGGRR
  number.
\<close>

theorem cache_wrong_order:
  "channels (fromARRGGBB (Color4_new (Fin 255) (Fin 0) (Fin 0) (Fin 0) True) (Fin 4279312947))
     = (Fin 255, Fin 17, Fin 34, Fin 51)
   \<and> fst (toAABBGGRR (fromARRGGBB (Color4_new (Fin 255) (Fin 0) (Fin 0) (Fin 0) True) (Fin 4279312947)))
     = Fin 4279312947
   \<and> getAABBGGRR (fromARRGGBB (Color4_new (Fin 255) (Fin 0) (Fin 0) (Fin 0) True) (Fin 4279312947))
     = Fin (- 13426159)
   \<and> fst (toAARRGGBB (snd (toAABBGGRR (Color4_new (Fin 255) (Fin 255) (Fin 0) (Fin 0) True))))
     = Fin (- 16776961)
   \<and> getAARRGGBB (snd (toAABBGGRR (Color4_new (Fin 255) (Fin 255) (Fin 0) (Fin 0) True)))
     = Fin (- 65536)"
  by (simp add: toAABBGGRR_def toAARRGGBB_def fromARRGGBB_def Color4_new_def getAABBGGRR_def
      getAARRGGBB_def Let_def band_def sar_def shl_def bor_def of_int32_def trunc_def channels_def
      clamp_def Math_min_def Math_max_def)

section \<open>Properties of the rounding\<close>

lemma rhe_of_int [simp]: "rhe (of_int k) = k"
  by (simp add: rhe_def)

lemma rhe_err: "\<bar>of_int (rhe r) - r\<bar> \<le> 1 / 2"
  unfolding rhe_def Let_def by (auto; linarith)

lemma rhe_le: "r \<le> of_int N \<Longrightarrow> rhe r \<le> N"
proof -
  assume a: "r \<le> of_int N"
  show ?thesis
  proof (cases "r = of_int N")
    case True then show ?thesis by simp
  next
    case False
    then have "r < of_int N" using a by simp
    then have "\<lfloor>r\<rfloor> < N" by (simp add: floor_less_iff)
    then show ?thesis unfolding rhe_def Let_def by auto
  qed
qed

lemma rhe_ge: "of_int N \<le> r \<Longrightarrow> N \<le> rhe r"
proof -
  assume "of_int N \<le> r"
  then have "N \<le> \<lfloor>r\<rfloor>" by (simp add: le_floor_iff)
  then show ?thesis unfolding rhe_def Let_def by auto
qed

lemma expo_range: "- 1022 \<le> expo x \<and> expo x \<le> 1023"
proof (cases "\<bar>x\<bar> < 2 powi (- 1022)")
  case True then show ?thesis by (simp add: expo_def)
next
  case False
  let ?A = "{e \<in> {- 1022 .. 1023}. (2::real) powi e \<le> \<bar>x\<bar>}"
  have "- 1022 \<in> ?A" using False by simp
  then have ne: "?A \<noteq> {}" by blast
  have fin: "finite ?A" by (rule finite_subset [where B = "{- 1022 .. 1023}"]) auto
  have "Max ?A \<in> ?A" using fin ne by (rule Max_in)
  then show ?thesis using False by (simp add: expo_def)
qed

lemma expo_eqI:
  assumes "- 1022 \<le> e" "e \<le> 1023" "2 powi e \<le> \<bar>x\<bar>" "\<bar>x\<bar> < 2 powi (e + 1)"
  shows "expo x = e"
proof -
  let ?A = "{e \<in> {- 1022 .. 1023}. (2::real) powi e \<le> \<bar>x\<bar>}"
  have "(2::real) powi (- 1022) \<le> 2 powi e" using assms(1) by (intro power_int_increasing) auto
  then have n: "\<not> \<bar>x\<bar> < 2 powi (- 1022)" using assms(3) by linarith
  have "Max ?A = e"
  proof (rule Max_eqI)
    show "finite ?A" by (rule finite_subset [where B = "{- 1022 .. 1023}"]) auto
    show "e \<in> ?A" using assms by simp
    fix y assume "y \<in> ?A"
    then have y: "(2::real) powi y \<le> \<bar>x\<bar>" by simp
    show "y \<le> e"
    proof (rule ccontr)
      assume "\<not> y \<le> e"
      then have "e + 1 \<le> y" by simp
      then have "(2::real) powi (e + 1) \<le> 2 powi y" by (intro power_int_increasing) auto
      then show False using y assms(4) by linarith
    qed
  qed
  then show ?thesis using n by (simp add: expo_def)
qed

lemma expo_sub: "\<bar>x\<bar> < 2 powi (- 1022) \<Longrightarrow> expo x = - 1022"
  by (simp add: expo_def)

lemma expo_lower: "2 powi (- 1022) \<le> \<bar>x\<bar> \<Longrightarrow> 2 powi (expo x) \<le> \<bar>x\<bar>"
proof -
  assume a: "2 powi (- 1022) \<le> \<bar>x\<bar>"
  let ?A = "{e \<in> {- 1022 .. 1023}. (2::real) powi e \<le> \<bar>x\<bar>}"
  have "- 1022 \<in> ?A" using a by simp
  then have ne: "?A \<noteq> {}" by blast
  have fin: "finite ?A" by (rule finite_subset [where B = "{- 1022 .. 1023}"]) auto
  have "Max ?A \<in> ?A" using fin ne by (rule Max_in)
  then show ?thesis using a by (simp add: expo_def)
qed

lemma expo_upper: "\<bar>x\<bar> < 2 powi 1024 \<Longrightarrow> \<bar>x\<bar> < 2 powi (expo x + 1)"
proof (cases "\<bar>x\<bar> < 2 powi (- 1022)")
  case True
  assume "\<bar>x\<bar> < 2 powi 1024"
  have "(2::real) powi (- 1022) \<le> 2 powi (- 1022 + 1)" by (intro power_int_increasing) auto
  then show ?thesis using True by (simp add: expo_def)
next
  case False
  assume b: "\<bar>x\<bar> < 2 powi 1024"
  let ?A = "{e \<in> {- 1022 .. 1023}. (2::real) powi e \<le> \<bar>x\<bar>}"
  show ?thesis
  proof (rule ccontr)
    assume c: "\<not> \<bar>x\<bar> < 2 powi (expo x + 1)"
    have r: "- 1022 \<le> expo x \<and> expo x \<le> 1023" by (rule expo_range)
    have "expo x \<noteq> 1023" using c b by auto
    then have "expo x + 1 \<in> ?A" using c r by simp
    moreover have fin: "finite ?A" by (rule finite_subset [where B = "{- 1022 .. 1023}"]) auto
    ultimately have "expo x + 1 \<le> Max ?A" by (intro Max_ge)
    then show False using False by (simp add: expo_def)
  qed
qed

lemma ulp_pos: "0 < ulp x"
  by (simp add: ulp_def zero_less_power_int)

lemma rnd_0 [simp]: "rnd 0 = 0"
  by (simp add: rnd_def rhe_def)

lemma rnd_err: "\<bar>rnd x - x\<bar> \<le> ulp x / 2"
proof -
  have "\<bar>of_int (rhe (x / ulp x)) - x / ulp x\<bar> \<le> 1 / 2" by (rule rhe_err)
  then have "\<bar>of_int (rhe (x / ulp x)) - x / ulp x\<bar> * ulp x \<le> 1 / 2 * ulp x"
    using ulp_pos [of x] by (intro mult_right_mono) auto
  moreover have "\<bar>of_int (rhe (x / ulp x)) - x / ulp x\<bar> * ulp x = \<bar>rnd x - x\<bar>"
  proof -
    have "\<bar>of_int (rhe (x / ulp x)) - x / ulp x\<bar> * ulp x
        = \<bar>(of_int (rhe (x / ulp x)) - x / ulp x) * ulp x\<bar>"
      using ulp_pos [of x] by (simp add: abs_mult)
    also have "(of_int (rhe (x / ulp x)) - x / ulp x) * ulp x = rnd x - x"
      using ulp_pos [of x] by (simp add: rnd_def field_simps)
    finally show ?thesis .
  qed
  ultimately show ?thesis by simp
qed

lemma rnd_rel_err:
  assumes "2 powi (- 1022) \<le> \<bar>x\<bar>"
  shows "\<bar>rnd x - x\<bar> \<le> \<bar>x\<bar> / 2 ^ 53"
proof -
  have "ulp x = 2 powi (expo x) / 2 ^ 52" by (simp add: ulp_def power_int_diff)
  also have "\<dots> \<le> \<bar>x\<bar> / 2 ^ 52" using expo_lower [OF assms] by (simp add: divide_right_mono)
  finally have "ulp x / 2 \<le> \<bar>x\<bar> / 2 ^ 53" by simp
  then show ?thesis using rnd_err [of x] by linarith
qed

lemma rnd_exact:
  assumes x: "x = of_int m * 2 powi j" and m: "\<bar>m\<bar> < 2 ^ 53" and j: "- 1074 \<le> j"
  shows "rnd x = x"
proof (cases "m = 0")
  case True then show ?thesis using x by simp
next
  case False
  have le: "expo x - 52 \<le> j"
  proof (cases "\<bar>x\<bar> < 2 powi (- 1022)")
    case True then show ?thesis using j by (simp add: expo_def)
  next
    case F: False
    then have "2 powi (expo x) \<le> \<bar>x\<bar>" by (intro expo_lower) simp
    also have "\<bar>x\<bar> = real_of_int \<bar>m\<bar> * 2 powi j" by (simp add: x abs_mult)
    also have "\<dots> < 2 ^ 53 * 2 powi j"
    proof -
      have "real_of_int \<bar>m\<bar> < 2 ^ 53" using m by (metis of_int_less_numeral_power_cancel_iff)
      then show ?thesis by (intro mult_strict_right_mono) (auto simp: zero_less_power_int)
    qed
    also have "\<dots> = 2 powi (53 + j)" by (simp add: power_int_add)
    finally have "(2::real) powi (expo x) < 2 powi (53 + j)" .
    then have "expo x < 53 + j"
      by (metis linorder_not_less one_le_numeral power_int_increasing)
    then show ?thesis by simp
  qed
  define u where "u = ulp x"
  define n where "n = nat (j - (expo x - 52))"
  have jn: "j = (expo x - 52) + int n" using le by (simp add: n_def)
  have u: "u = 2 powi (expo x - 52)" by (simp add: u_def ulp_def)
  have xu: "x = of_int (m * 2 ^ n) * u"
    unfolding u by (subst x, subst jn) (simp add: power_int_add)
  have "0 < u" unfolding u_def by (rule ulp_pos)
  then have "x / u = of_int (m * 2 ^ n)" by (subst xu) simp
  then have "rhe (x / u) = m * 2 ^ n" by (simp only: rhe_of_int)
  then have "rnd x = of_int (m * 2 ^ n) * u" by (simp add: rnd_def u_def)
  then show ?thesis using xu by simp
qed

lemma rnd_int:
  assumes "\<bar>k\<bar> \<le> 2 ^ 53"
  shows "rnd (of_int k) = of_int k"
proof (cases "\<bar>k\<bar> < 2 ^ 53")
  case True
  then show ?thesis by (intro rnd_exact [where m = k and j = 0]) simp_all
next
  case False
  then have "k = 2 ^ 53 \<or> k = - (2 ^ 53)" using assms by auto
  then show ?thesis
  proof
    assume "k = 2 ^ 53"
    then show ?thesis by (intro rnd_exact [where m = "2 ^ 52" and j = 1]) simp_all
  next
    assume "k = - (2 ^ 53)"
    then show ?thesis by (intro rnd_exact [where m = "- (2 ^ 52)" and j = 1]) simp_all
  qed
qed

lemma rhe_mono: "r \<le> s \<Longrightarrow> rhe r \<le> rhe s"
proof -
  assume a: "r \<le> s"
  have fl: "\<lfloor>r\<rfloor> \<le> \<lfloor>s\<rfloor>" using a by (rule floor_mono)
  show ?thesis
  proof (cases "\<lfloor>r\<rfloor> = \<lfloor>s\<rfloor>")
    case True
    then show ?thesis using a unfolding rhe_def Let_def by auto
  next
    case False
    then have "\<lfloor>r\<rfloor> + 1 \<le> \<lfloor>s\<rfloor>" using fl by simp
    moreover have "rhe r \<le> \<lfloor>r\<rfloor> + 1" unfolding rhe_def Let_def by auto
    moreover have "\<lfloor>s\<rfloor> \<le> rhe s" unfolding rhe_def Let_def by auto
    ultimately show ?thesis by linarith
  qed
qed

lemma rnd_le_grid: "x \<le> of_int N * ulp x \<Longrightarrow> rnd x \<le> of_int N * ulp x"
proof -
  assume "x \<le> of_int N * ulp x"
  then have "x / ulp x \<le> of_int N" using ulp_pos [of x] by (simp add: field_simps)
  then have "rhe (x / ulp x) \<le> N" by (rule rhe_le)
  then have "real_of_int (rhe (x / ulp x)) \<le> of_int N" by simp
  then show ?thesis unfolding rnd_def using ulp_pos [of x] by (intro mult_right_mono) auto
qed

lemma rnd_ge_grid: "of_int N * ulp x \<le> x \<Longrightarrow> of_int N * ulp x \<le> rnd x"
proof -
  assume "of_int N * ulp x \<le> x"
  then have "of_int N \<le> x / ulp x" using ulp_pos [of x] by (simp add: field_simps)
  then have "N \<le> rhe (x / ulp x)" by (rule rhe_ge)
  then have "real_of_int N \<le> of_int (rhe (x / ulp x))" by simp
  then show ?thesis unfolding rnd_def using ulp_pos [of x] by (intro mult_right_mono) auto
qed

lemma rnd_nonneg: "0 \<le> x \<Longrightarrow> 0 \<le> rnd x"
  using rnd_ge_grid [of 0 x] by simp

lemma rnd_nonpos: "x \<le> 0 \<Longrightarrow> rnd x \<le> 0"
  using rnd_le_grid [of x 0] by simp

lemma pow_grid:
  assumes "expo x - 52 \<le> k"
  shows "2 powi k = of_int (2 ^ nat (k - (expo x - 52))) * ulp x"
proof -
  define n where "n = nat (k - (expo x - 52))"
  have "k = int n + (expo x - 52)" using assms by (simp add: n_def)
  then have "(2::real) powi k = 2 powi (int n + (expo x - 52))" by simp
  also have "\<dots> = 2 ^ n * 2 powi (expo x - 52)" by (simp add: power_int_add)
  finally show ?thesis by (simp add: ulp_def n_def)
qed

lemma rnd_le_pow2:
  assumes "x \<le> 2 powi k" and "- 1074 \<le> k"
  shows "rnd x \<le> 2 powi k"
proof (cases "expo x - 52 \<le> k")
  case True
  show ?thesis using assms(1) unfolding pow_grid [OF True] by (rule rnd_le_grid)
next
  case False
  then have e: "k < expo x - 52" by simp
  then have "expo x \<noteq> - 1022" using assms(2) by simp
  then have n: "2 powi (- 1022) \<le> \<bar>x\<bar>" by (auto simp: expo_def split: if_splits)
  have "(2::real) powi k \<le> 2 powi (expo x - 52)" using e by (intro power_int_increasing) auto
  also have "\<dots> < 2 powi (expo x)" by (intro power_int_strict_increasing) auto
  also have "\<dots> \<le> \<bar>x\<bar>" using n by (rule expo_lower)
  finally have "x < 0" using assms(1) by linarith
  then have "rnd x \<le> 0" by (intro rnd_nonpos) simp
  also have "(0::real) \<le> 2 powi k" by (simp add: zero_le_power_int)
  finally show ?thesis .
qed

lemma rnd_ge_neg_pow2:
  assumes "- (2 powi k) \<le> x" and "- 1074 \<le> k"
  shows "- (2 powi k) \<le> rnd x"
proof (cases "expo x - 52 \<le> k")
  case True
  have "of_int (- (2 ^ nat (k - (expo x - 52)))) * ulp x \<le> rnd x"
    using assms(1) unfolding pow_grid [OF True] by (intro rnd_ge_grid) simp
  then show ?thesis unfolding pow_grid [OF True] by simp
next
  case False
  then have e: "k < expo x - 52" by simp
  then have "expo x \<noteq> - 1022" using assms(2) by simp
  then have n: "2 powi (- 1022) \<le> \<bar>x\<bar>" by (auto simp: expo_def split: if_splits)
  have "(2::real) powi k \<le> 2 powi (expo x - 52)" using e by (intro power_int_increasing) auto
  also have "\<dots> < 2 powi (expo x)" by (intro power_int_strict_increasing) auto
  also have "\<dots> \<le> \<bar>x\<bar>" using n by (rule expo_lower)
  finally have "0 < x" using assms(1) by linarith
  then have "0 \<le> rnd x" by (intro rnd_nonneg) simp
  moreover have "(0::real) \<le> 2 powi k" by (simp add: zero_le_power_int)
  ultimately show ?thesis by linarith
qed

lemma rnd_abs_le_pow2: "\<bar>x\<bar> \<le> 2 powi k \<Longrightarrow> - 1074 \<le> k \<Longrightarrow> \<bar>rnd x\<bar> \<le> 2 powi k"
  using rnd_le_pow2 [of x k] rnd_ge_neg_pow2 [of k x] by (simp add: abs_le_iff)

lemma rnd_ge_pow2:
  assumes "2 powi k \<le> x" and "- 1074 \<le> k"
  shows "2 powi k \<le> rnd x"
proof (cases "expo x - 52 \<le> k")
  case True
  show ?thesis using assms(1) unfolding pow_grid [OF True] by (rule rnd_ge_grid)
next
  case False
  then have e: "k < expo x - 52" by simp
  then have "expo x \<noteq> - 1022" using assms(2) by simp
  then have n: "2 powi (- 1022) \<le> \<bar>x\<bar>" by (auto simp: expo_def split: if_splits)
  have p: "0 < x" using assms(1) zero_less_power_int [of "2::real" k] by linarith
  have g: "2 powi (expo x) = of_int (2 ^ nat (expo x - (expo x - 52))) * ulp x"
    by (rule pow_grid) simp
  have "(2::real) powi k \<le> 2 powi (expo x)" using e by (intro power_int_increasing) auto
  also have "\<dots> \<le> rnd x" using expo_lower [OF n] p unfolding g by (intro rnd_ge_grid) simp
  finally show ?thesis .
qed

lemma rnd_le_neg_pow2:
  assumes "x \<le> - (2 powi k)" and "- 1074 \<le> k"
  shows "rnd x \<le> - (2 powi k)"
proof (cases "expo x - 52 \<le> k")
  case True
  have "rnd x \<le> of_int (- (2 ^ nat (k - (expo x - 52)))) * ulp x"
    using assms(1) unfolding pow_grid [OF True] by (intro rnd_le_grid) simp
  then show ?thesis unfolding pow_grid [OF True] by simp
next
  case False
  then have e: "k < expo x - 52" by simp
  then have "expo x \<noteq> - 1022" using assms(2) by simp
  then have n: "2 powi (- 1022) \<le> \<bar>x\<bar>" by (auto simp: expo_def split: if_splits)
  have p: "x < 0" using assms(1) zero_less_power_int [of "2::real" k] by linarith
  have g: "2 powi (expo x) = of_int (2 ^ nat (expo x - (expo x - 52))) * ulp x"
    by (rule pow_grid) simp
  have "rnd x \<le> of_int (- (2 ^ nat (expo x - (expo x - 52)))) * ulp x"
    using expo_lower [OF n] p unfolding g by (intro rnd_le_grid) simp
  then have "rnd x \<le> - (2 powi (expo x))" unfolding g by simp
  moreover have "(2::real) powi k \<le> 2 powi (expo x)" using e by (intro power_int_increasing) auto
  ultimately show ?thesis by linarith
qed

lemma expo_top:
  assumes "2 powi 1023 \<le> \<bar>x\<bar>"
  shows "expo x = 1023"
proof -
  let ?A = "{e \<in> {- 1022 .. 1023}. (2::real) powi e \<le> \<bar>x\<bar>}"
  have fin: "finite ?A" by (rule finite_subset [where B = "{- 1022 .. 1023}"]) auto
  have "(2::real) powi (- 1022) \<le> 2 powi 1023" by (intro power_int_increasing) auto
  then have n: "\<not> \<bar>x\<bar> < 2 powi (- 1022)" using assms by linarith
  have "1023 \<in> ?A" using assms by simp
  then have "1023 \<le> Max ?A" using fin by (intro Max_ge)
  then have "1023 \<le> expo x" using n by (simp add: expo_def)
  then show ?thesis using expo_range [of x] by simp
qed

lemma expo_mono_abs:
  assumes "\<bar>x\<bar> \<le> \<bar>y\<bar>"
  shows "expo x \<le> expo y"
proof (cases "\<bar>y\<bar> < 2 powi (- 1022)")
  case True
  then show ?thesis using assms by (simp add: expo_def)
next
  case False
  show ?thesis
  proof (cases "\<bar>x\<bar> < 2 powi (- 1022)")
    case True
    then show ?thesis using expo_range [of y] by (simp add: expo_def)
  next
    case F: False
    let ?A = "{e \<in> {- 1022 .. 1023}. (2::real) powi e \<le> \<bar>x\<bar>}"
    let ?B = "{e \<in> {- 1022 .. 1023}. (2::real) powi e \<le> \<bar>y\<bar>}"
    have "- 1022 \<in> ?A" using F by simp
    then have ne: "?A \<noteq> {}" by blast
    have fB: "finite ?B" by (rule finite_subset [where B = "{- 1022 .. 1023}"]) auto
    have "?A \<subseteq> ?B" using assms by auto
    then have "Max ?A \<le> Max ?B" using ne fB by (rule Max_mono)
    then show ?thesis using False F by (simp add: expo_def)
  qed
qed

lemma rnd_mono_nonneg:
  assumes "0 \<le> x" "x \<le> y"
  shows "rnd x \<le> rnd y"
proof -
  have le: "expo x \<le> expo y" using assms by (intro expo_mono_abs) simp
  show ?thesis
  proof (cases "expo x = expo y")
    case True
    then have u: "ulp x = ulp y" by (simp add: ulp_def)
    have "x / ulp y \<le> y / ulp y" using assms ulp_pos [of y] by (simp add: divide_right_mono)
    then have "rhe (x / ulp y) \<le> rhe (y / ulp y)" by (rule rhe_mono)
    then have "real_of_int (rhe (x / ulp y)) \<le> of_int (rhe (y / ulp y))" by simp
    then show ?thesis unfolding rnd_def u using ulp_pos [of y] by (intro mult_right_mono) auto
  next
    case False
    then have lt: "expo x + 1 \<le> expo y" using le by simp
    have ny: "expo y \<noteq> - 1022" using lt expo_range [of x] by simp
    then have n: "2 powi (- 1022) \<le> \<bar>y\<bar>" by (auto simp: expo_def split: if_splits)
    have ub: "expo x \<le> 1022" using lt expo_range [of y] by simp
    have "\<bar>x\<bar> < 2 powi (expo x + 1)"
    proof (cases "\<bar>x\<bar> < 2 powi 1024")
      case True then show ?thesis by (rule expo_upper)
    next
      case False
      then have "(2::real) powi 1023 \<le> \<bar>x\<bar>"
        using power_int_increasing [of 1023 1024 "2::real"] by linarith
      then have "expo x = 1023" by (rule expo_top)
      then show ?thesis using ub by simp
    qed
    then have "x \<le> 2 powi (expo x + 1)" using assms by simp
    then have "rnd x \<le> 2 powi (expo x + 1)" using expo_range [of x] by (intro rnd_le_pow2) auto
    also have "\<dots> \<le> 2 powi (expo y)" using lt by (intro power_int_increasing) auto
    also have "\<dots> \<le> rnd y"
      using expo_lower [OF n] assms expo_range [of y] by (intro rnd_ge_pow2) auto
    finally show ?thesis .
  qed
qed

lemma rhe_minus: "rhe (- r) = - rhe r"
proof (cases "r = of_int \<lfloor>r\<rfloor>")
  case True
  have "rhe (- r) = rhe (of_int (- \<lfloor>r\<rfloor>))" by (subst True) simp
  also have "\<dots> = - \<lfloor>r\<rfloor>" by (rule rhe_of_int)
  also have "\<lfloor>r\<rfloor> = rhe (of_int \<lfloor>r\<rfloor>)" by (simp only: rhe_of_int)
  also have "\<dots> = rhe r" using True by simp
  finally show ?thesis .
next
  case False
  then have lt: "of_int \<lfloor>r\<rfloor> < r" using of_int_floor_le [of r] by linarith
  have f: "\<lfloor>- r\<rfloor> = - \<lfloor>r\<rfloor> - 1"
    using lt by (intro floor_unique) (auto, linarith)
  show ?thesis unfolding rhe_def Let_def f using lt by (auto simp: field_simps)
qed

lemma expo_minus [simp]: "expo (- x) = expo x"
  by (simp add: expo_def)

lemma ulp_minus [simp]: "ulp (- x) = ulp x"
  by (simp add: ulp_def)

lemma rnd_minus: "rnd (- x) = - rnd x"
  by (simp add: rnd_def rhe_minus)

lemma rnd_mono:
  assumes "x \<le> y"
  shows "rnd x \<le> rnd y"
proof (cases "0 \<le> x")
  case True then show ?thesis using assms by (rule rnd_mono_nonneg)
next
  case False
  show ?thesis
  proof (cases "0 \<le> y")
    case True
    have "rnd x \<le> 0" using False by (intro rnd_nonpos) simp
    also have "0 \<le> rnd y" using True by (rule rnd_nonneg)
    finally show ?thesis .
  next
    case F: False
    have "rnd (- y) \<le> rnd (- x)" using assms F by (intro rnd_mono_nonneg) auto
    then show ?thesis by (simp add: rnd_minus)
  qed
qed

lemma rnd_eqI:
  assumes "- 1022 \<le> e" "e \<le> 1023" "2 powi e \<le> \<bar>x\<bar>" "\<bar>x\<bar> < 2 powi (e + 1)"
    and "rhe (x / 2 powi (e - 52)) = n"
  shows "rnd x = of_int n * 2 powi (e - 52)"
  using assms(5) unfolding rnd_def ulp_def expo_eqI [OF assms(1-4)] by simp

lemma rnd_strict_pos:
  assumes "2 powi (- 1022) \<le> a" and "a < b" and "(a + b) / 2 ^ 53 < b - a"
  shows "rnd a < rnd b"
proof -
  have pa: "0 < a" using assms(1) zero_less_power_int [of "2::real" "- 1022"] by linarith
  have aa: "\<bar>a\<bar> = a" "\<bar>b\<bar> = b" using pa assms(2) by simp_all
  have "\<bar>rnd a - a\<bar> \<le> \<bar>a\<bar> / 2 ^ 53" using assms(1) aa by (intro rnd_rel_err) simp
  then have 1: "rnd a \<le> a + a / 2 ^ 53" unfolding aa by linarith
  have "\<bar>rnd b - b\<bar> \<le> \<bar>b\<bar> / 2 ^ 53" using assms(1,2) aa by (intro rnd_rel_err) simp
  then have 2: "b - b / 2 ^ 53 \<le> rnd b" unfolding aa by linarith
  have "(a + b) / 2 ^ 53 = a / 2 ^ 53 + b / 2 ^ 53" by (simp add: add_divide_distrib)
  then show ?thesis using 1 2 assms(3) by linarith
qed

lemma ratio_gap:
  fixes q1 p1 q2 p2 :: int
  assumes p: "0 < p1" "p1 \<le> 2 ^ 25" "0 < p2" "p2 \<le> 2 ^ 25"
    and q: "0 < q1" "q2 \<le> 2 ^ 25"
    and lt: "real_of_int q1 / of_int p1 < of_int q2 / of_int p2"
  shows "rnd (of_int q1 / of_int p1) < rnd (of_int q2 / of_int p2)"
proof (rule rnd_strict_pos)
  let ?a = "real_of_int q1 / of_int p1" and ?b = "real_of_int q2 / of_int p2"
  have P: "0 < real_of_int p1" "0 < real_of_int p2" using p by simp_all
  have pp: "0 < real_of_int (p1 * p2)" using p by simp
  have "1 / 2 ^ 25 \<le> 1 / real_of_int p1" using p by (intro divide_left_mono) auto
  also have "\<dots> \<le> ?a" using q P by (intro divide_right_mono) auto
  finally have "1 / 2 ^ 25 \<le> ?a" .
  moreover have "(2::real) powi (- 1022) \<le> 2 powi (- 25)" by (intro power_int_increasing) auto
  moreover have "(2::real) powi (- 25) = 1 / 2 ^ 25" by (simp add: power_int_minus_divide)
  ultimately show "2 powi (- 1022) \<le> ?a" by linarith
  show "?a < ?b" by (rule lt)
  have "q1 * p2 < q2 * p1"
  proof -
    have "real_of_int q1 * of_int p2 < of_int q2 * of_int p1"
      using lt P by (simp add: field_simps)
    then have "real_of_int (q1 * p2) < of_int (q2 * p1)" by simp
    then show ?thesis by (simp only: of_int_less_iff)
  qed
  then have "1 \<le> q2 * p1 - q1 * p2" by simp
  then have g: "1 \<le> real_of_int (q2 * p1 - q1 * p2)" by (simp only: of_int_1_le_iff)
  have d: "?b - ?a = real_of_int (q2 * p1 - q1 * p2) / of_int (p1 * p2)"
    using P by (simp add: field_simps)
  have ge: "1 / of_int (p1 * p2) \<le> ?b - ?a"
    unfolding d using g pp by (intro divide_right_mono) auto
  have q2p: "0 < q2" 
  proof -
    have "0 < ?a" using q P by simp
    then have "0 < ?b" using lt by linarith
    then show ?thesis using P by (simp add: zero_less_divide_iff)
  qed
  have "q2 * p1 \<le> 2 ^ 25 * 2 ^ 25" using q p q2p by (intro mult_mono) auto
  then have b1: "real_of_int (q2 * p1) \<le> 2 ^ 50" 
    by (metis (no_types) of_int_le_numeral_power_cancel_iff power_add numeral_Bit0 mult_2)
  have "?a + ?b < 2 * ?b" using lt by simp
  also have "\<dots> = 2 * real_of_int (q2 * p1) / of_int (p1 * p2)" using P by (simp add: field_simps)
  also have "\<dots> \<le> 2 * 2 ^ 50 / of_int (p1 * p2)"
    using b1 pp by (intro divide_right_mono mult_left_mono) auto
  finally have "(?a + ?b) / 2 ^ 53 < (2 * 2 ^ 50 / of_int (p1 * p2)) / 2 ^ 53"
    by (simp add: divide_strict_right_mono)
  also have "\<dots> = (1 / 4) * (1 / of_int (p1 * p2))" by simp
  also have "\<dots> \<le> 1 / of_int (p1 * p2)"
  proof -
    have "0 < 1 / real_of_int (p1 * p2)" using pp by (simp only: zero_less_divide_1_iff)
    then show ?thesis by linarith
  qed
  finally show "(?a + ?b) / 2 ^ 53 < ?b - ?a" using ge by linarith
qed
section \<open>Arithmetic on finite numbers\<close>

lemma strict_eq_Fin [simp]: "strict_eq (Fin u) (Fin v) \<longleftrightarrow> u = v"
  by (simp add: strict_eq_def)

lemma fl_Fin:
  assumes "\<bar>x\<bar> \<le> 2 powi k" "- 1074 \<le> k" "k \<le> 1023"
  shows "fl x = Fin (rnd x)"
proof -
  have "\<bar>rnd x\<bar> \<le> 2 powi k" using assms(1,2) by (rule rnd_abs_le_pow2)
  also have "(2::real) powi k < 2 powi 1024" using assms(3) by (intro power_int_strict_increasing) auto
  finally show ?thesis by (simp only: fl_def not_le [symmetric] if_False)
qed

lemma fl_int:
  assumes "\<bar>k\<bar> \<le> 2 ^ 53"
  shows "fl (of_int k) = Fin (of_int k)"
proof -
  have "\<bar>real_of_int k\<bar> \<le> 2 ^ 53"
    using assms by (metis of_int_abs of_int_le_numeral_power_cancel_iff)
  then have "\<bar>real_of_int k\<bar> \<le> 2 powi 53" by simp
  then have "fl (of_int k) = Fin (rnd (of_int k))" by (rule fl_Fin) simp_all
  then show ?thesis using assms by (simp only: rnd_int)
qed

lemma Whole_add: "\<bar>a + b\<bar> \<le> 2 ^ 53 \<Longrightarrow> Whole a + Whole b = Whole (a + b)"
  using fl_int [of "a + b"] by (simp add: Whole_def)

lemma Whole_uminus [simp]: "- Whole a = Whole (- a)"
  by (simp add: Whole_def)

lemma Whole_diff: "\<bar>a - b\<bar> \<le> 2 ^ 53 \<Longrightarrow> Whole a - Whole b = Whole (a - b)"
  using Whole_add [of a "- b"] by (simp add: minus_number_def)

lemma Whole_mult: "\<bar>a * b\<bar> \<le> 2 ^ 53 \<Longrightarrow> Whole a * Whole b = Whole (a * b)"
  using fl_int [of "a * b"] by (simp add: Whole_def)

lemma Whole_cmp [simp]:
  "Whole a < Whole b \<longleftrightarrow> a < b"
  "Whole a \<le> Whole b \<longleftrightarrow> a \<le> b"
  "strict_eq (Whole a) (Whole b) \<longleftrightarrow> a = b"
  "Whole a = Whole b \<longleftrightarrow> a = b"
  "Math_abs (Whole a) = Whole \<bar>a\<bar>"
  "Math_floor (Whole a) = Whole a"
  "Math_ceil (Whole a) = Whole a"
  by (simp_all add: Whole_def Math_abs_def strict_eq_def)

lemma Fin_Whole_numeral:
  "Fin 0 = Whole 0" "Fin 1 = Whole 1" "Fin (numeral n) = Whole (numeral n)"
  "Fin (- 1) = Whole (- 1)" "Fin (- numeral n) = Whole (- numeral n)"
  by (simp_all add: Whole_def)

lemma Whole_of_nat: "Fin (of_nat n) = Whole (int n)"
  by (simp add: Whole_def)

lemma Math_max_Fin: "Math_max (Fin u) (Fin v) = Fin (max u v)"
  by (simp add: Math_max_def max_def)

lemma Math_min_Fin: "Math_min (Fin u) (Fin v) = Fin (min u v)"
  by (simp add: Math_min_def min_def)

lemma Math_abs_Fin: "Math_abs (Fin u) = Fin \<bar>u\<bar>"
  by (simp add: Math_abs_def)

lemma Math_max_Whole: "Math_max (Whole u) (Whole v) = Whole (max u v)"
  by (simp add: Whole_def Math_max_def max_def)

lemma Math_min_Whole: "Math_min (Whole u) (Whole v) = Whole (min u v)"
  by (simp add: Whole_def Math_min_def min_def)

lemma fl_numeral [simp]:
  "fl 0 = Fin 0"
  "fl 1 = Fin 1"
  "fl (- 1) = Fin (- 1)"
  "numeral n \<le> (2 ^ 53 :: int) \<Longrightarrow> fl (numeral n) = Fin (numeral n)"
  "numeral n \<le> (2 ^ 53 :: int) \<Longrightarrow> fl (- numeral n) = Fin (- numeral n)"
  using fl_int [of 0] fl_int [of 1] fl_int [of "- 1"] fl_int [of "numeral n"]
    fl_int [of "- numeral n"]
  by simp_all

lemma minus_Fin: "Fin u - Fin v = fl (u - v)"
  by (simp add: minus_number_def)

section \<open>Properties of the clip rectangle\<close>

lemma getters_new:
  "minX (Clipping_new a b c d) = of_int16 (ToInt16 a)"
  "minY (Clipping_new a b c d) = of_int16 (ToInt16 b)"
  "maxX (Clipping_new a b c d) = of_int16 (ToInt16 c)"
  "maxY (Clipping_new a b c d) = of_int16 (ToInt16 d)"
  by (simp_all add: Clipping_new_def minX_def minY_def maxX_def maxY_def)

lemma inside_new:
  "inside (Clipping_new a b c d) x y \<longleftrightarrow>
     of_int16 (ToInt16 a) \<le> x \<and> x \<le> of_int16 (ToInt16 c) \<and>
     of_int16 (ToInt16 b) \<le> y \<and> y \<le> of_int16 (ToInt16 d)"
  by (simp add: Clipping_new_def inside_def)

lemma outside_new:
  "outside (Clipping_new a b c d) x y \<longleftrightarrow>
     x < of_int16 (ToInt16 a) \<or> of_int16 (ToInt16 c) \<le> x \<or>
     y < of_int16 (ToInt16 b) \<or> of_int16 (ToInt16 d) \<le> y"
  by (simp add: Clipping_new_def outside_def)

text \<open>
  Claim C9. For every clip rectangle and point, \<open>inside\<close> holds exactly when the point is
  between the bounds with both maxima included, and \<open>outside\<close> holds exactly when a
  coordinate is below its minimum or at or above its maximum. The two are therefore
  not negations of each other: a point that is inside lies outside as well exactly
  when it is on the line \<open>x = maxX\<close> or \<open>y = maxY\<close>, and for a rectangle that is not
  empty the corner \<open>(maxX, maxY)\<close> is such a point.
\<close>

theorem inside_outside:
  "let r = Clipping_new a b c d in
     (inside r x y \<longleftrightarrow> minX r \<le> x \<and> x \<le> maxX r \<and> minY r \<le> y \<and> y \<le> maxY r)
   \<and> (outside r x y \<longleftrightarrow> x < minX r \<or> maxX r \<le> x \<or> y < minY r \<or> maxY r \<le> y)
   \<and> (inside r x y \<and> outside r x y \<longleftrightarrow> inside r x y \<and> (x = maxX r \<or> y = maxY r))
   \<and> (minX r \<le> maxX r \<and> minY r \<le> maxY r \<longrightarrow>
        inside r (maxX r) (maxY r) \<and> outside r (maxX r) (maxY r))"
proof -
  have 3: "inside (Clipping_new a b c d) x y \<and> outside (Clipping_new a b c d) x y \<longleftrightarrow>
     inside (Clipping_new a b c d) x y \<and>
       (x = maxX (Clipping_new a b c d) \<or> y = maxY (Clipping_new a b c d))"
    unfolding inside_new outside_new getters_new of_int16_def
    by (cases x; cases y) auto
  have 4: "minX (Clipping_new a b c d) \<le> maxX (Clipping_new a b c d) \<and>
      minY (Clipping_new a b c d) \<le> maxY (Clipping_new a b c d) \<longrightarrow>
        inside (Clipping_new a b c d) (maxX (Clipping_new a b c d)) (maxY (Clipping_new a b c d))
      \<and> outside (Clipping_new a b c d) (maxX (Clipping_new a b c d)) (maxY (Clipping_new a b c d))"
    unfolding inside_new outside_new getters_new of_int16_def by simp
  show ?thesis
    unfolding Let_def using 3 4 by (simp add: inside_new outside_new getters_new)
qed

theorem inside_outside_witness:
  "minX (Clipping_new (Fin 0) (Fin 0) (Fin 100) (Fin 100)) \<le> maxX (Clipping_new (Fin 0) (Fin 0) (Fin 100) (Fin 100))
   \<and> minY (Clipping_new (Fin 0) (Fin 0) (Fin 100) (Fin 100)) \<le> maxY (Clipping_new (Fin 0) (Fin 0) (Fin 100) (Fin 100))
   \<and> maxX (Clipping_new (Fin 0) (Fin 0) (Fin 100) (Fin 100)) = Fin 100
   \<and> inside (Clipping_new (Fin 0) (Fin 0) (Fin 100) (Fin 100)) (Fin 100) (Fin 100)
   \<and> outside (Clipping_new (Fin 0) (Fin 0) (Fin 100) (Fin 100)) (Fin 100) (Fin 100)
   \<and> inside (Clipping_new (Fin 0) (Fin 0) (Fin 100) (Fin 100)) (Fin 100) (Fin 50)
   \<and> outside (Clipping_new (Fin 0) (Fin 0) (Fin 100) (Fin 100)) (Fin 100) (Fin 50)"
  using inside_outside [of "Fin 0" "Fin 0" "Fin 100" "Fin 100" "Fin 100" "Fin 50"]
  by (simp add: Let_def getters_new of_int16_def trunc_def)

section \<open>Properties of the raster order\<close>

text \<open>
  Claim C4, as stated, at three vertices on one horizontal line: the order returned
  for \<open>(1,0), (2,0), (0,0)\<close> is \<open>(1,0), (0,0), (2,0)\<close>, whose first two vertices share
  their \<open>y\<close> (the minimum) and are in descending \<open>x\<close>. The swap that orders the last
  pair undoes the order of the first pair.
\<close>

theorem rasterOrder_horizontal_line:
  "rasterOrder \<lparr>tri_a = \<lparr>px = Fin 1, py = Fin 0\<rparr>, tri_b = \<lparr>px = Fin 2, py = Fin 0\<rparr>,
                 tri_c = \<lparr>px = Fin 0, py = Fin 0\<rparr>\<rparr>
     = (\<lparr>px = Fin 1, py = Fin 0\<rparr>, \<lparr>px = Fin 0, py = Fin 0\<rparr>, \<lparr>px = Fin 2, py = Fin 0\<rparr>)
   \<and> (case rasterOrder \<lparr>tri_a = \<lparr>px = Fin 1, py = Fin 0\<rparr>, tri_b = \<lparr>px = Fin 2, py = Fin 0\<rparr>,
                 tri_c = \<lparr>px = Fin 0, py = Fin 0\<rparr>\<rparr>
      of (v0, v1, v2) \<Rightarrow> py v0 = py v1 \<and> px v1 < px v0)"
  by (simp add: rasterOrder_def Let_def strict_eq_def)

text \<open>
  Claim C4, amended. For every triangle, \<open>rasterOrder\<close> returns its three vertices in
  some order with non-decreasing \<open>y\<close>; when the last two share their \<open>y\<close> they are in
  ascending \<open>x\<close>; when the first two share their \<open>y\<close> and the third does not (the
  triangle is not a horizontal line) they are in ascending \<open>x\<close>.
\<close>

theorem rasterOrder_sorted:
  fixes ax ay bx "by" cx cy :: real
  shows
  "let a = \<lparr>px = Fin ax, py = Fin ay\<rparr>; b = \<lparr>px = Fin bx, py = Fin by\<rparr>;
       c = \<lparr>px = Fin cx, py = Fin cy\<rparr>
   in case rasterOrder \<lparr>tri_a = a, tri_b = b, tri_c = c\<rparr> of (v0, v1, v2) \<Rightarrow>
        (v0, v1, v2) \<in> {(a, b, c), (a, c, b), (b, a, c), (b, c, a), (c, a, b), (c, b, a)}
      \<and> py v0 \<le> py v1 \<and> py v1 \<le> py v2
      \<and> (py v1 = py v2 \<longrightarrow> px v1 \<le> px v2)
      \<and> (py v0 = py v1 \<and> py v1 \<noteq> py v2 \<longrightarrow> px v0 \<le> px v1)"
  unfolding rasterOrder_def Let_def strict_eq_def
  by (auto split: if_splits)

theorem rasterOrder_sorted_witness:
  "(case rasterOrder \<lparr>tri_a = \<lparr>px = Fin 5, py = Fin 0\<rparr>, tri_b = \<lparr>px = Fin 1, py = Fin 0\<rparr>,
                       tri_c = \<lparr>px = Fin 3, py = Fin 4\<rparr>\<rparr>
    of (v0, v1, v2) \<Rightarrow> py v0 = py v1 \<and> py v1 \<noteq> py v2 \<and> px v0 \<le> px v1 \<and> py v1 \<le> py v2)
   \<and> (case rasterOrder \<lparr>tri_a = \<lparr>px = Fin 3, py = Fin 0\<rparr>, tri_b = \<lparr>px = Fin 5, py = Fin 4\<rparr>,
                       tri_c = \<lparr>px = Fin 1, py = Fin 4\<rparr>\<rparr>
    of (v0, v1, v2) \<Rightarrow> py v1 = py v2 \<and> px v1 \<le> px v2 \<and> py v0 \<le> py v1)"
  using rasterOrder_sorted [of 5 0 1 0 3 4] rasterOrder_sorted [of 3 0 5 4 1 4]
  by (simp add: rasterOrder_def Let_def)

section \<open>Properties of the pixel-write primitive\<close>

lemma store_int:
  "store buf (Fin (of_int k)) v =
     (if 0 \<le> k \<and> k < int (length buf) then buf[nat k := ToInt32 v] else buf)"
proof -
  have "(real_of_int k < real (length buf)) = (k < int (length buf))"
    by (metis of_int_less_iff of_int_of_nat_eq)
  then show ?thesis by (simp add: store_def)
qed

lemma pixel_index:
  assumes "\<bar>x\<bar> \<le> 2 ^ 52" "\<bar>y * int w\<bar> \<le> 2 ^ 52"
  shows "Fin (of_int y) * Fin (of_nat w) + Fin (of_int x) = Fin (of_int (y * int w + x))"
proof -
  have "Whole y * Whole (int w) = Whole (y * int w)" using assms(2) by (intro Whole_mult) simp
  moreover have "Whole (y * int w) + Whole x = Whole (y * int w + x)"
    using assms by (intro Whole_add) (simp; linarith)
  ultimately show ?thesis by (simp add: Whole_def)
qed

lemma setPixel_unclipped:
  assumes "\<bar>x\<bar> \<le> 2 ^ 52" "\<bar>y * int (width blitter)\<bar> \<le> 2 ^ 52"
  shows "st_buffer (setPixel blitter (Fin (of_int x)) (Fin (of_int y)) False st) =
     store (st_buffer st) (Fin (of_int (y * int (width blitter) + x))) (fst (toAABBGGRR (st_color st)))"
  unfolding setPixel_def pixel_index [OF assms] by (simp add: split_def Let_def)

text \<open>
  Claim C2, as stated, on a 2 by 2 buffer: \<open>setPixel\<close> at \<open>(-1, 1)\<close> with clipping off
  is outside the buffer (\<open>x < 0\<close>), but its linear index \<open>1 * 2 + (-1) = 1\<close> is inside
  the array, so the cell of the pixel \<open>(1, 0)\<close> is overwritten.
\<close>

theorem setPixel_wraps_into_previous_row:
  "st_buffer (setPixel \<lparr>width = 2, height = 2, clipping = Clipping_new (Fin 0) (Fin 0) (Fin 2) (Fin 2)\<rparr>
      (Fin (- 1)) (Fin 1) False
      \<lparr>st_color = Color4_new (Fin 255) (Fin 255) (Fin 255) (Fin 255) True,
       st_buffer = [0, 0, 0, 0], st_writes = []\<rparr>)
   = [0, 4294967295, 0, 0]"
  by (simp add: setPixel_def store_def toAABBGGRR_def Color4_new_def getAABBGGRR_def Let_def
      shl_def bor_def of_int32_def trunc_def clamp_def Math_min_def Math_max_def)

text \<open>
  The primitive takes any number. At a coordinate that is not an integer the linear
  index is an integer or not as it happens: on the same buffer, \<open>setPixel\<close> at
  \<open>(1, -1/2)\<close> has the index \<open>-1/2 * 2 + 1 = 0\<close> and overwrites the first cell, and at
  \<open>(1/2, 0)\<close> the index \<open>1/2\<close> names no cell and the store is dropped.
\<close>

lemma setPixel_fraction:
  "st_buffer (setPixel \<lparr>width = 2, height = 2, clipping = Clipping_new (Fin 0) (Fin 0) (Fin 2) (Fin 2)\<rparr>
      (Fin 1) (Fin (- 1 / 2)) False
      \<lparr>st_color = Color4_new (Fin 255) (Fin 255) (Fin 255) (Fin 255) True,
       st_buffer = [0, 0, 0, 0], st_writes = []\<rparr>)
   = [4294967295, 0, 0, 0]
   \<and> st_buffer (setPixel \<lparr>width = 2, height = 2, clipping = Clipping_new (Fin 0) (Fin 0) (Fin 2) (Fin 2)\<rparr>
      (Fin (1 / 2)) (Fin 0) False
      \<lparr>st_color = Color4_new (Fin 255) (Fin 255) (Fin 255) (Fin 255) True,
       st_buffer = [0, 0, 0, 0], st_writes = []\<rparr>)
   = [0, 0, 0, 0]"
proof -
  have h: "fl (1 / 2) = Fin (1 / 2)"
  proof -
    have "rnd (1 / 2) = 1 / 2" by (rule rnd_exact [where m = 1 and j = "- 1"]) simp_all
    moreover have "fl (1 / 2) = Fin (rnd (1 / 2))" by (rule fl_Fin [where k = 0]) simp_all
    ultimately show ?thesis by simp
  qed
  show ?thesis
    by (simp add: setPixel_def store_def toAABBGGRR_def Color4_new_def getAABBGGRR_def Let_def
        shl_def bor_def of_int32_def trunc_def clamp_def Math_min_def Math_max_def h)
qed

text \<open>
  Claim C2, amended. With clipping off \<open>setPixel\<close> checks no bounds. For integer
  coordinates \<open>x\<close>, \<open>y\<close> with \<open>\<bar>x\<bar>\<close> and \<open>\<bar>y * width\<bar>\<close> at most \<open>2 ^ 52\<close>, so that the
  linear index \<open>y * width + x\<close> is computed exactly, it stores at that index, and the
  array drops the store exactly when the index is outside the array. On a buffer of
  \<open>width * height\<close> cells the write is dropped, and every cell unchanged, whenever \<open>x\<close>
  is in range and \<open>y\<close> is not; when the index is inside the array the cell at that
  index is overwritten, whatever \<open>x\<close> and \<open>y\<close> are. With clipping on, a coordinate
  outside the clip rectangle leaves everything unchanged.
\<close>

theorem setPixel_out_of_range:
  fixes x y :: int
  assumes "length (st_buffer st) = width blitter * height blitter"
    and "\<bar>x\<bar> \<le> 2 ^ 52" and "\<bar>y * int (width blitter)\<bar> \<le> 2 ^ 52"
  shows
  "(0 \<le> x \<and> x < int (width blitter) \<and> (y < 0 \<or> int (height blitter) \<le> y) \<longrightarrow>
      st_buffer (setPixel blitter (Fin (of_int x)) (Fin (of_int y)) False st) = st_buffer st)
   \<and> (y * int (width blitter) + x < 0 \<or> int (length (st_buffer st)) \<le> y * int (width blitter) + x \<longrightarrow>
      st_buffer (setPixel blitter (Fin (of_int x)) (Fin (of_int y)) False st) = st_buffer st)
   \<and> (0 \<le> y * int (width blitter) + x \<and> y * int (width blitter) + x < int (length (st_buffer st)) \<longrightarrow>
      st_buffer (setPixel blitter (Fin (of_int x)) (Fin (of_int y)) False st) =
        (st_buffer st)[nat (y * int (width blitter) + x) := ToInt32 (fst (toAABBGGRR (st_color st)))])
   \<and> (outside (clipping blitter) (Fin (of_int x)) (Fin (of_int y)) \<longrightarrow>
      setPixel blitter (Fin (of_int x)) (Fin (of_int y)) True st = st)"
proof -
  let ?w = "int (width blitter)" and ?h = "int (height blitter)"
  note u = setPixel_unclipped [OF assms(2,3)]
  have a: "y * ?w + x < 0" if "0 \<le> x" "x < ?w" "y < 0"
  proof -
    have "y * ?w \<le> (- 1) * ?w" using that by (intro mult_right_mono) auto
    then show ?thesis using that by simp
  qed
  have b: "?h * ?w \<le> y * ?w + x" if "0 \<le> x" "?h \<le> y"
  proof -
    have "?h * ?w \<le> y * ?w" using that by (intro mult_right_mono) auto
    then show ?thesis using that by simp
  qed
  have len: "int (length (st_buffer st)) = ?w * ?h" using assms(1) by simp
  have 1: "0 \<le> x \<and> x < ?w \<and> (y < 0 \<or> ?h \<le> y) \<longrightarrow>
      st_buffer (setPixel blitter (Fin (of_int x)) (Fin (of_int y)) False st) = st_buffer st"
    unfolding u store_int len using a b by (auto simp: mult.commute)
  have 4: "outside (clipping blitter) (Fin (of_int x)) (Fin (of_int y)) \<longrightarrow>
      setPixel blitter (Fin (of_int x)) (Fin (of_int y)) True st = st"
    by (simp add: setPixel_def outside_def minX_def maxX_def minY_def maxY_def)
  show ?thesis using 1 4 unfolding u store_int by simp
qed

theorem setPixel_out_of_range_witness:
  "length (st_buffer \<lparr>st_color = Color4_new (Fin 255) (Fin 255) (Fin 255) (Fin 255) True,
                      st_buffer = [0, 0, 0, 0], st_writes = []\<rparr>)
     = width \<lparr>width = 2, height = 2, clipping = Clipping_new (Fin 0) (Fin 0) (Fin 2) (Fin 2)\<rparr>
       * height \<lparr>width = 2, height = 2, clipping = Clipping_new (Fin 0) (Fin 0) (Fin 2) (Fin 2)\<rparr>
   \<and> st_buffer (setPixel \<lparr>width = 2, height = 2, clipping = Clipping_new (Fin 0) (Fin 0) (Fin 2) (Fin 2)\<rparr>
        (Fin 0) (Fin 2) False
        \<lparr>st_color = Color4_new (Fin 255) (Fin 255) (Fin 255) (Fin 255) True,
         st_buffer = [0, 0, 0, 0], st_writes = []\<rparr>) = [0, 0, 0, 0]
   \<and> st_buffer (setPixel \<lparr>width = 2, height = 2, clipping = Clipping_new (Fin 0) (Fin 0) (Fin 2) (Fin 2)\<rparr>
        (Fin 1) (Fin (- 1)) False
        \<lparr>st_color = Color4_new (Fin 255) (Fin 255) (Fin 255) (Fin 255) True,
         st_buffer = [0, 0, 0, 0], st_writes = []\<rparr>) = [0, 0, 0, 0]
   \<and> st_buffer (setPixel \<lparr>width = 2, height = 2, clipping = Clipping_new (Fin 0) (Fin 0) (Fin 2) (Fin 2)\<rparr>
        (Fin 2) (Fin 0) False
        \<lparr>st_color = Color4_new (Fin 255) (Fin 255) (Fin 255) (Fin 255) True,
         st_buffer = [0, 0, 0, 0], st_writes = []\<rparr>)
      = [0, 0, 0, 0][2 := ToInt32 (fst (toAABBGGRR (Color4_new (Fin 255) (Fin 255) (Fin 255) (Fin 255) True)))]
   \<and> setPixel \<lparr>width = 2, height = 2, clipping = Clipping_new (Fin 0) (Fin 0) (Fin 2) (Fin 2)\<rparr>
        (Fin 2) (Fin 0) True
        \<lparr>st_color = Color4_new (Fin 255) (Fin 255) (Fin 255) (Fin 255) True,
         st_buffer = [0, 0, 0, 0], st_writes = []\<rparr>
      = \<lparr>st_color = Color4_new (Fin 255) (Fin 255) (Fin 255) (Fin 255) True,
         st_buffer = [0, 0, 0, 0], st_writes = []\<rparr>"
  using
    setPixel_out_of_range [of "\<lparr>st_color = Color4_new (Fin 255) (Fin 255) (Fin 255) (Fin 255) True,
         st_buffer = [0, 0, 0, 0], st_writes = []\<rparr>"
       "\<lparr>width = 2, height = 2, clipping = Clipping_new (Fin 0) (Fin 0) (Fin 2) (Fin 2)\<rparr>" 0 2]
    setPixel_out_of_range [of "\<lparr>st_color = Color4_new (Fin 255) (Fin 255) (Fin 255) (Fin 255) True,
         st_buffer = [0, 0, 0, 0], st_writes = []\<rparr>"
       "\<lparr>width = 2, height = 2, clipping = Clipping_new (Fin 0) (Fin 0) (Fin 2) (Fin 2)\<rparr>" 1 "- 1"]
    setPixel_out_of_range [of "\<lparr>st_color = Color4_new (Fin 255) (Fin 255) (Fin 255) (Fin 255) True,
         st_buffer = [0, 0, 0, 0], st_writes = []\<rparr>"
       "\<lparr>width = 2, height = 2, clipping = Clipping_new (Fin 0) (Fin 0) (Fin 2) (Fin 2)\<rparr>" 2 0]
  by (simp add: outside_def Clipping_new_def of_int16_def trunc_def)

section \<open>Properties of the Liang-Barsky clipper\<close>

lemma getters_Fin:
  "minX r = Fin (of_int (sint (bounds r ! 0)))"
  "minY r = Fin (of_int (sint (bounds r ! 1)))"
  "maxX r = Fin (of_int (sint (bounds r ! 2)))"
  "maxY r = Fin (of_int (sint (bounds r ! 3)))"
  unfolding minX_def minY_def maxX_def maxY_def of_int16_def by (rule refl)+

lemma sint16_bound: "\<bar>sint (w :: 16 word)\<bar> \<le> 2 ^ 15"
  using sint_lt [of w] sint_ge [of w] by (simp add: abs_le_iff)

lemma sint16_real_bound: "\<bar>real_of_int (sint (w :: 16 word))\<bar> \<le> 2 ^ 15"
  using sint16_bound [of w] by (metis of_int_abs of_int_le_numeral_power_cancel_iff)

lemma fl_bound:
  assumes "\<bar>x\<bar> \<le> 2 ^ n" "n \<le> 1023"
  shows "\<exists>v. fl x = Fin v \<and> \<bar>v\<bar> \<le> 2 ^ n"
proof -
  have p: "(2::real) ^ n = 2 powi (int n)" by simp
  have "fl x = Fin (rnd x)" by (rule fl_Fin [where k = "int n"]) (use assms in simp_all)
  moreover have "\<bar>rnd x\<bar> \<le> 2 powi (int n)"
    by (rule rnd_abs_le_pow2) (use assms in simp_all)
  ultimately show ?thesis by simp
qed

lemma fl_cases: "(\<exists>v. fl x = Fin v) \<or> fl x = PInf \<or> fl x = NInf"
  by (simp add: fl_def)

text \<open>The interval of the clipper stays inside \<open>[0, 1]\<close>, whatever the edge test finds.\<close>

lemma testEdge_unit:
  assumes "testEdge (Fin d) (Fin q) (Fin t0, Fin t1) = (ok, tt)"
    and "0 \<le> t0" "t0 \<le> 1" "0 \<le> t1" "t1 \<le> 1"
  shows "\<exists>t0' t1'. tt = (Fin t0', Fin t1') \<and> 0 \<le> t0' \<and> t0' \<le> 1 \<and> 0 \<le> t1' \<and> t1' \<le> 1"
proof (cases "d = 0")
  case True
  then show ?thesis using assms by (auto simp: testEdge_def)
next
  case False
  from fl_cases [of "q / d"] show ?thesis
  proof (elim disjE exE)
    fix v assume "fl (q / d) = Fin v"
    then show ?thesis using assms False
      by (auto simp: testEdge_def Let_def split: if_splits)
  next
    assume "fl (q / d) = PInf"
    then show ?thesis using assms False
      by (auto simp: testEdge_def Let_def split: if_splits)
  next
    assume "fl (q / d) = NInf"
    then show ?thesis using assms False
      by (auto simp: testEdge_def Let_def split: if_splits)
  qed
qed

lemma clip_unfold:
  assumes "Fin bx - Fin ax = Fin dX" "Fin by - Fin ay = Fin dY"
    and "Fin ax - minX r = Fin q1" "(maxX r - Fin 1) - Fin ax = Fin q2"
    and "Fin ay - minY r = Fin q3" "(maxY r - Fin 1) - Fin ay = Fin q4"
  shows "clipLineLiangBarsky \<lparr>px = Fin ax, py = Fin ay\<rparr> \<lparr>px = Fin bx, py = Fin by\<rparr> r =
     (case testEdge (Fin (- dX)) (Fin q1) (Fin 0, Fin 1) of (ok1, tt1) \<Rightarrow>
      if \<not> ok1 then None else
      case testEdge (Fin dX) (Fin q2) tt1 of (ok2, tt2) \<Rightarrow>
      if \<not> ok2 then None else
      case testEdge (Fin (- dY)) (Fin q3) tt2 of (ok3, tt3) \<Rightarrow>
      if \<not> ok3 then None else
      case testEdge (Fin dY) (Fin q4) tt3 of (ok4, tMin, tMax) \<Rightarrow>
      if \<not> ok4 then None else
        Some (\<lparr>px = Fin ax + tMin * Fin dX, py = Fin ay + tMin * Fin dY\<rparr>,
              \<lparr>px = Fin ax + tMax * Fin dX, py = Fin ay + tMax * Fin dY\<rparr>))"
  unfolding clipLineLiangBarsky_def
  by (simp add: assms Let_def cong: prod.case_cong if_cong)

text \<open>
  The endpoints that the clipper returns for endpoints of magnitude at most \<open>2 ^ 48\<close>
  are finite, of magnitude at most \<open>2 ^ 50\<close>.
\<close>

lemma clip_bounded:
  assumes s: "clipLineLiangBarsky \<lparr>px = Fin ax, py = Fin ay\<rparr> \<lparr>px = Fin bx, py = Fin by\<rparr> r = Some (a', b')"
    and B: "\<bar>ax\<bar> \<le> 2 ^ 48" "\<bar>ay\<bar> \<le> 2 ^ 48" "\<bar>bx\<bar> \<le> 2 ^ 48" "\<bar>by\<bar> \<le> 2 ^ 48"
  shows "\<exists>x0 y0 x1 y1. a' = \<lparr>px = Fin x0, py = Fin y0\<rparr> \<and> b' = \<lparr>px = Fin x1, py = Fin y1\<rparr>
           \<and> \<bar>x0\<bar> \<le> 2 ^ 50 \<and> \<bar>y0\<bar> \<le> 2 ^ 50 \<and> \<bar>x1\<bar> \<le> 2 ^ 50 \<and> \<bar>y1\<bar> \<le> 2 ^ 50"
proof -
  define mnx mny mxx mxy :: real where "mnx = of_int (sint (bounds r ! 0))"
    and "mny = of_int (sint (bounds r ! 1))" and "mxx = of_int (sint (bounds r ! 2))"
    and "mxy = of_int (sint (bounds r ! 3))"
  have m: "minX r = Fin mnx" "minY r = Fin mny" "maxX r = Fin mxx" "maxY r = Fin mxy"
    by (simp_all add: getters_Fin mnx_def mny_def mxx_def mxy_def)
  have mb: "\<bar>mnx\<bar> \<le> 2 ^ 15" "\<bar>mny\<bar> \<le> 2 ^ 15" "\<bar>mxx\<bar> \<le> 2 ^ 15" "\<bar>mxy\<bar> \<le> 2 ^ 15"
    unfolding mnx_def mny_def mxx_def mxy_def by (rule sint16_real_bound)+
  have "\<bar>bx - ax\<bar> \<le> 2 ^ 49" using B by simp
  from fl_bound [OF this] obtain dX where dX: "Fin bx - Fin ax = Fin dX" "\<bar>dX\<bar> \<le> 2 ^ 49"
    by (auto simp: minus_Fin)
  have "\<bar>by - ay\<bar> \<le> 2 ^ 49" using B by simp
  from fl_bound [OF this] obtain dY where dY: "Fin by - Fin ay = Fin dY" "\<bar>dY\<bar> \<le> 2 ^ 49"
    by (auto simp: minus_Fin)
  have "\<bar>ax - mnx\<bar> \<le> 2 ^ 49" using B mb by simp
  from fl_bound [OF this] obtain q1 where q1: "Fin ax - minX r = Fin q1"
    by (auto simp: minus_Fin m)
  have "\<bar>ay - mny\<bar> \<le> 2 ^ 49" using B mb by simp
  from fl_bound [OF this] obtain q3 where q3: "Fin ay - minY r = Fin q3"
    by (auto simp: minus_Fin m)
  have "\<bar>mxx - 1\<bar> \<le> 2 ^ 16" using mb by simp
  from fl_bound [OF this] obtain ex where ex: "maxX r - Fin 1 = Fin ex" "\<bar>ex\<bar> \<le> 2 ^ 16"
    by (auto simp: minus_Fin m)
  have "\<bar>ex - ax\<bar> \<le> 2 ^ 49" using B ex by simp
  from fl_bound [OF this] obtain q2 where q2: "(maxX r - Fin 1) - Fin ax = Fin q2"
    by (auto simp: minus_Fin ex)
  have "\<bar>mxy - 1\<bar> \<le> 2 ^ 16" using mb by simp
  from fl_bound [OF this] obtain ey where ey: "maxY r - Fin 1 = Fin ey" "\<bar>ey\<bar> \<le> 2 ^ 16"
    by (auto simp: minus_Fin m)
  have "\<bar>ey - ay\<bar> \<le> 2 ^ 49" using B ey by simp
  from fl_bound [OF this] obtain q4 where q4: "(maxY r - Fin 1) - Fin ay = Fin q4"
    by (auto simp: minus_Fin ey)
  note c = clip_unfold [OF dX(1) dY(1) q1 q2 q3 q4]
  obtain ok1 tt1 where e1: "testEdge (Fin (- dX)) (Fin q1) (Fin 0, Fin 1) = (ok1, tt1)"
    by (cases "testEdge (Fin (- dX)) (Fin q1) (Fin 0, Fin 1)")
  from testEdge_unit [OF e1] obtain a1 b1 where
    t1: "tt1 = (Fin a1, Fin b1)" "0 \<le> a1" "a1 \<le> 1" "0 \<le> b1" "b1 \<le> 1" by auto
  obtain ok2 tt2 where e2: "testEdge (Fin dX) (Fin q2) (Fin a1, Fin b1) = (ok2, tt2)"
    by (cases "testEdge (Fin dX) (Fin q2) (Fin a1, Fin b1)")
  from testEdge_unit [OF e2 t1(2-)] obtain a2 b2 where
    t2: "tt2 = (Fin a2, Fin b2)" "0 \<le> a2" "a2 \<le> 1" "0 \<le> b2" "b2 \<le> 1" by auto
  obtain ok3 tt3 where e3: "testEdge (Fin (- dY)) (Fin q3) (Fin a2, Fin b2) = (ok3, tt3)"
    by (cases "testEdge (Fin (- dY)) (Fin q3) (Fin a2, Fin b2)")
  from testEdge_unit [OF e3 t2(2-)] obtain a3 b3 where
    t3: "tt3 = (Fin a3, Fin b3)" "0 \<le> a3" "a3 \<le> 1" "0 \<le> b3" "b3 \<le> 1" by auto
  obtain ok4 tt4 where e4: "testEdge (Fin dY) (Fin q4) (Fin a3, Fin b3) = (ok4, tt4)"
    by (cases "testEdge (Fin dY) (Fin q4) (Fin a3, Fin b3)")
  from testEdge_unit [OF e4 t3(2-)] obtain a4 b4 where
    t4: "tt4 = (Fin a4, Fin b4)" "0 \<le> a4" "a4 \<le> 1" "0 \<le> b4" "b4 \<le> 1" by auto
  from s have res:
    "a' = \<lparr>px = Fin ax + Fin a4 * Fin dX, py = Fin ay + Fin a4 * Fin dY\<rparr>"
    "b' = \<lparr>px = Fin ax + Fin b4 * Fin dX, py = Fin ay + Fin b4 * Fin dY\<rparr>"
    unfolding c by (simp_all add: e1 t1 e2 t2 e3 t3 e4 t4 split: if_splits)
  have pt: "\<exists>v. Fin p + Fin t * Fin d = Fin v \<and> \<bar>v\<bar> \<le> 2 ^ 50"
    if "0 \<le> t" "t \<le> 1" "\<bar>d\<bar> \<le> 2 ^ 49" "\<bar>p\<bar> \<le> 2 ^ 48" for p t d :: real
  proof -
    have "\<bar>t * d\<bar> \<le> 1 * \<bar>d\<bar>" unfolding abs_mult using that by (intro mult_right_mono) auto
    then have "\<bar>t * d\<bar> \<le> 2 ^ 49" using that by simp
    from fl_bound [OF this] obtain m where m: "Fin t * Fin d = Fin m" "\<bar>m\<bar> \<le> 2 ^ 49" by auto
    have "\<bar>p + m\<bar> \<le> 2 ^ 50" using that m by simp
    from fl_bound [OF this] show ?thesis unfolding m by simp
  qed
  from pt [OF t4(2,3) dX(2) B(1)] pt [OF t4(2,3) dY(2) B(2)]
    pt [OF t4(4,5) dX(2) B(1)] pt [OF t4(4,5) dY(2) B(2)]
  show ?thesis unfolding res by auto
qed

section \<open>Properties of the line rasterisers\<close>

subsection \<open>Calls that never return\<close>

lemma NaN_plus [simp]: "NaN + v = NaN"
  by (cases v) simp_all

lemma bresenham_loop_Some_not_NaN:
  "bresenham_loop b x0 y0 x1 y1 dx dy sx sy e st = Some r \<Longrightarrow> x0 \<noteq> NaN"
proof (induction rule: bresenham_loop.raw_induct [rotated 1, consumes 1])
  case (1 loop b x0 y0 x1 y1 dx dy sx sy e st r)
  show ?case
  proof
    assume "x0 = NaN"
    with 1(2) obtain y0' e' where
      "loop b NaN y0' x1 y1 dx dy sx sy e' (Blitter_setPixel b NaN y0 False st) = Some r"
      by (auto simp: strict_eq_def Let_def split: if_splits)
    from 1(1) [OF this] show False by simp
  qed
qed

lemma bresenham_loop_NaN:
  "bresenham_loop b NaN y0 x1 y1 dx dy sx sy e st = None"
  using bresenham_loop_Some_not_NaN [of b NaN y0 x1 y1 dx dy sx sy e st]
  by (cases "bresenham_loop b NaN y0 x1 y1 dx dy sx sy e st") auto

text \<open>
  Claim C3, as stated, at a NaN coordinate: \<open>drawLineBresenham\<close> from \<open>(NaN, 0)\<close> to
  \<open>(1, 0)\<close> with clipping off never returns. The loop leaves only when
  \<^verbatim>\<open>x0 === x1 && y0 === y1\<close>, and \<^verbatim>\<open>NaN === x1\<close> is false in every iteration.
\<close>

theorem drawLineBresenham_NaN_never_returns:
  "drawLineBresenham
     \<lparr>width = 2, height = 2, clipping = Clipping_new (Fin 0) (Fin 0) (Fin 2) (Fin 2)\<rparr>
     \<lparr>px = NaN, py = Fin 0\<rparr> \<lparr>px = Fin 1, py = Fin 0\<rparr> False
     \<lparr>st_color = Color4_new (Fin 255) (Fin 0) (Fin 0) (Fin 0) True,
      st_buffer = [0, 0, 0, 0], st_writes = []\<rparr> = None"
  by (simp add: drawLineBresenham_def clipped_def Let_def bresenham_loop_NaN)

text \<open>
  The DDA loop counts \<open>i\<close> up to \<open>steps\<close>; with an infinite coordinate \<open>steps\<close> is
  \<open>Infinity\<close> and the loop never ends either.
\<close>

lemma plus_one_not_NaN: "i \<noteq> NaN \<Longrightarrow> i + Fin 1 \<noteq> NaN"
  by (cases i) (simp_all add: fl_def)

lemma le_PInf: "i \<noteq> NaN \<Longrightarrow> i \<le> PInf"
  by (cases i) simp_all

lemma dda_loop_Some_not_PInf:
  assumes "dda_loop b i PInf x y sx sy st = Some r" and "i \<noteq> NaN"
  shows False
proof -
  have "steps = PInf \<longrightarrow> i = NaN"
    if "dda_loop b i steps x y sx sy st = Some r" for steps
  proof (rule dda_loop.raw_induct [where xa = "(((((((b, i), steps), x), y), sx), sy), st)"
      and ya = r and P = "\<lambda>b i steps x y sx sy st r. steps = PInf \<longrightarrow> i = NaN",
      simplified])
    show "dda_loop b i steps x y sx sy st = Some r" by (rule that)
  next
    fix loop :: "Blitter \<Rightarrow> number \<Rightarrow> number \<Rightarrow> number \<Rightarrow> number \<Rightarrow> number \<Rightarrow> number \<Rightarrow> draw_state \<Rightarrow>
         draw_state option" and b i steps x y sx sy st r
    assume IH: "\<And>b i steps x y sx sy st r.
           loop b i steps x y sx sy st = Some r \<Longrightarrow> steps = PInf \<longrightarrow> i = NaN"
      and eq: "(if i \<le> steps
             then loop b (i + Fin 1) steps (x + sx) (y + sy) sx sy (Blitter_setPixel b x y False st)
             else Some st) = Some r"
    show "steps = PInf \<longrightarrow> i = NaN"
    proof (intro impI, rule ccontr)
      assume k: "steps = PInf" "i \<noteq> NaN"
      with eq have "loop b (i + Fin 1) PInf (x + sx) (y + sy) sx sy (Blitter_setPixel b x y False st) = Some r"
        by (simp add: le_PInf)
      from IH [OF this] k(2) show False by (simp add: plus_one_not_NaN)
    qed
  qed
  from this [OF assms(1)] assms(2) show False by simp
qed

lemma dda_loop_PInf:
  "dda_loop b (Fin k) PInf x y sx sy st = None"
  using dda_loop_Some_not_PInf [of b "Fin k" x y sx sy st]
  by (cases "dda_loop b (Fin k) PInf x y sx sy st") auto

lemma drawLineDDA_Infinity_never_returns:
  "drawLineDDA
     \<lparr>width = 2, height = 2, clipping = Clipping_new (Fin 0) (Fin 0) (Fin 2) (Fin 2)\<rparr>
     \<lparr>px = Fin 0, py = Fin 0\<rparr> \<lparr>px = PInf, py = Fin 0\<rparr> False
     \<lparr>st_color = Color4_new (Fin 255) (Fin 0) (Fin 0) (Fin 0) True,
      st_buffer = [0, 0, 0, 0], st_writes = []\<rparr> = None"
  by (simp add: drawLineDDA_def clipped_def Let_def dda_loop_PInf Math_abs_def Math_max_def
      minus_number_def strict_eq_def)

subsection \<open>Finite endpoints\<close>

lemma writes_Blitter_setPixel:
  "st_writes (Blitter_setPixel b x y False st) = st_writes st @ [(Math_floor x, Math_floor y)]"
  by (simp add: Blitter_setPixel_def setPixel_def split_def Let_def)

lemma bresenham_loop_Whole:
  assumes "\<bar>x0\<bar> \<le> 2 ^ 52" "\<bar>y0\<bar> \<le> 2 ^ 52" "\<bar>e\<bar> \<le> 2 ^ 52"
    and "0 \<le> dx" "dx \<le> 2 ^ 51" "0 \<le> dy" "dy \<le> 2 ^ 51"
    and "sx = 1 \<or> sx = - 1" "sy = 1 \<or> sy = - 1"
  shows
  "bresenham_loop b (Whole x0) (Whole y0) (Whole x1) (Whole y1) (Whole dx) (Whole dy) (Whole sx) (Whole sy) (Whole e) st =
    (if x0 = x1 \<and> y0 = y1 then Some (Blitter_setPixel b (Whole x0) (Whole y0) False st)
     else bresenham_loop b (Whole (if - dy < 2 * e then x0 + sx else x0))
        (Whole (if 2 * e < dx then y0 + sy else y0)) (Whole x1) (Whole y1) (Whole dx) (Whole dy) (Whole sx) (Whole sy)
        (Whole ((if - dy < 2 * e then e - dy else e) + (if 2 * e < dx then dx else 0)))
        (Blitter_setPixel b (Whole x0) (Whole y0) False st))"
proof -
  have d: "Fin 2 * Whole e = Whole (2 * e)"
    using Whole_mult [of 2 e] assms(3) by (simp add: Fin_Whole_numeral)
  have e1: "Whole e - Whole dy = Whole (e - dy)"
    using assms by (intro Whole_diff) (simp; linarith)
  have e2: "Whole (e - dy) + Whole dx = Whole (e - dy + dx)"
    using assms by (intro Whole_add) (simp; linarith)
  have e3: "Whole e + Whole dx = Whole (e + dx)"
    using assms by (intro Whole_add) (simp; linarith)
  have xs: "Whole x0 + Whole sx = Whole (x0 + sx)"
    using assms by (intro Whole_add) (simp; linarith)
  have ys: "Whole y0 + Whole sy = Whole (y0 + sy)"
    using assms by (intro Whole_add) (simp; linarith)
  show ?thesis
    by (subst bresenham_loop.simps) (simp add: Let_def d e1 e2 e3 xs ys)
qed

lemma writes_setPixel_len:
  "length (st_writes (Blitter_setPixel b x y False st)) = length (st_writes st) + 1"
  by (simp add: writes_Blitter_setPixel)

lemma step_bound:
  fixes xs i s :: int
  assumes "\<bar>xs\<bar> \<le> 2 ^ 50" "0 \<le> i" "i \<le> 2 ^ 51" "s = 1 \<or> s = - 1"
  shows "\<bar>xs + i * s\<bar> \<le> 2 ^ 52"
  using assms by auto

lemma bresenham_major_x:
  fixes dx dy i j D sx sy xs ys :: int
  assumes "0 < dx" "0 \<le> dy" "dy \<le> dx" "sx = 1 \<or> sx = - 1" "sy = 1 \<or> sy = - 1"
    and B: "\<bar>xs\<bar> \<le> 2 ^ 50" "\<bar>ys\<bar> \<le> 2 ^ 50" "dx \<le> 2 ^ 51"
    and "i \<le> dx" "0 \<le> j" "j \<le> i" "D = i * dy - j * dx" "- dx < 2 * D" "2 * D < 2 * dx - dy"
  shows "\<exists>st'. bresenham_loop b (Whole (xs + i * sx)) (Whole (ys + j * sy))
            (Whole (xs + dx * sx)) (Whole (ys + dy * sy)) (Whole dx) (Whole dy) (Whole sx) (Whole sy)
            (Whole (dx - dy - D)) st = Some st'
          \<and> length (st_writes st') = length (st_writes st) + nat (dx - i) + 1"
  using assms(9-)
proof (induction "nat (dx - i)" arbitrary: i j D st)
  case 0
  note I = 0(2-)
  from 0 have i: "i = dx" by simp
  have j: "j = dy"
  proof (rule ccontr)
    assume "j \<noteq> dy"
    then consider "dy - j \<ge> 1" | "dy - j \<le> - 1" by linarith
    then show False
    proof cases
      case 1
      then have "dx * 1 \<le> dx * (dy - j)" using assms(1) by (intro mult_left_mono) auto
      moreover have "D = dx * (dy - j)" using I(4) i by (simp add: algebra_simps)
      ultimately show False using I(6) assms(2) by linarith
    next
      case 2
      then have "dx * (dy - j) \<le> dx * (- 1)" using assms(1) by (intro mult_left_mono) auto
      moreover have "D = dx * (dy - j)" using I(4) i by (simp add: algebra_simps)
      ultimately show False using I(5) assms(1) by linarith
    qed
  qed
  have px: "\<bar>xs + i * sx\<bar> \<le> 2 ^ 52" using B(1,3) I assms(4) by (intro step_bound) auto
  have py: "\<bar>ys + j * sy\<bar> \<le> 2 ^ 52" using B(2,3) I assms(5) by (intro step_bound) auto
  have pe: "\<bar>dx - dy - D\<bar> \<le> 2 ^ 52" using I(5,6) B(3) assms(1-3) by simp
  have dyb: "dy \<le> 2 ^ 51" using assms(3) B(3) by simp
  have dx0: "0 \<le> dx" using assms(1) by simp
  note step = bresenham_loop_Whole [OF px py pe dx0 B(3) assms(2) dyb assms(4,5)]
  show ?case
    by (subst step) (simp add: i j writes_setPixel_len)
next
  case (Suc n)
  note I = Suc.prems
  from Suc have i: "i < dx" by linarith
  have ne: "xs + i * sx \<noteq> xs + dx * sx" using i assms(4) by auto
  have xstep: "- dy < 2 * (dx - dy - D)" using I(6) by arith
  have px: "\<bar>xs + i * sx\<bar> \<le> 2 ^ 52" using B(1,3) I assms(4) by (intro step_bound) auto
  have py: "\<bar>ys + j * sy\<bar> \<le> 2 ^ 52" using B(2,3) I assms(5) by (intro step_bound) auto
  have pe: "\<bar>dx - dy - D\<bar> \<le> 2 ^ 52" using I(5,6) B(3) assms(1-3) by simp
  have dyb: "dy \<le> 2 ^ 51" using assms(3) B(3) by simp
  have dx0: "0 \<le> dx" using assms(1) by simp
  note step = bresenham_loop_Whole [OF px py pe dx0 B(3) assms(2) dyb assms(4,5)]
  show ?case
  proof (cases "2 * (dx - dy - D) < dx")
    case True
    have m: "n = nat (dx - (i + 1))" using Suc.hyps(2) by linarith
    have "\<exists>st'. bresenham_loop b (Whole (xs + (i + 1) * sx)) (Whole (ys + (j + 1) * sy))
            (Whole (xs + dx * sx)) (Whole (ys + dy * sy)) (Whole dx) (Whole dy) (Whole sx) (Whole sy)
            (Whole (dx - dy - (D + dy - dx))) (Blitter_setPixel b (Whole (xs + i * sx)) (Whole (ys + j * sy)) False st) = Some st'
          \<and> length (st_writes st') = length (st_writes (Blitter_setPixel b (Whole (xs + i * sx)) (Whole (ys + j * sy)) False st)) + nat (dx - (i + 1)) + 1"
      using i True I assms(3)
      by (intro Suc.hyps(1) [OF m]) (simp_all add: algebra_simps)
    then obtain st' where
      s: "bresenham_loop b (Whole (xs + (i + 1) * sx)) (Whole (ys + (j + 1) * sy))
            (Whole (xs + dx * sx)) (Whole (ys + dy * sy)) (Whole dx) (Whole dy) (Whole sx) (Whole sy)
            (Whole (dx - dy - (D + dy - dx))) (Blitter_setPixel b (Whole (xs + i * sx)) (Whole (ys + j * sy)) False st) = Some st'"
      and l: "length (st_writes st') = length (st_writes (Blitter_setPixel b (Whole (xs + i * sx)) (Whole (ys + j * sy)) False st)) + nat (dx - (i + 1)) + 1"
      by blast
    have step': "bresenham_loop b (Whole (xs + i * sx)) (Whole (ys + j * sy))
            (Whole (xs + dx * sx)) (Whole (ys + dy * sy)) (Whole dx) (Whole dy) (Whole sx) (Whole sy)
            (Whole (dx - dy - D)) st = Some st'"
      using ne xstep True s
      by (subst step) (simp add: algebra_simps)
    have "nat (dx - i) = nat (dx - (i + 1)) + 1" using i by arith
    then show ?thesis using step' l by (simp add: writes_setPixel_len)
  next
    case False
    have m: "n = nat (dx - (i + 1))" using Suc.hyps(2) by linarith
    have lt: "dy < dx"
    proof (rule ccontr)
      assume "\<not> dy < dx"
      then have "dy = dx" using assms(3) by simp
      then show False using False I(5) by arith
    qed
    have "\<exists>st'. bresenham_loop b (Whole (xs + (i + 1) * sx)) (Whole (ys + j * sy))
            (Whole (xs + dx * sx)) (Whole (ys + dy * sy)) (Whole dx) (Whole dy) (Whole sx) (Whole sy)
            (Whole (dx - dy - (D + dy))) (Blitter_setPixel b (Whole (xs + i * sx)) (Whole (ys + j * sy)) False st) = Some st'
          \<and> length (st_writes st') = length (st_writes (Blitter_setPixel b (Whole (xs + i * sx)) (Whole (ys + j * sy)) False st)) + nat (dx - (i + 1)) + 1"
      using i False I assms(2) lt
      by (intro Suc.hyps(1) [OF m]) (simp_all add: algebra_simps)
    then obtain st' where
      s: "bresenham_loop b (Whole (xs + (i + 1) * sx)) (Whole (ys + j * sy))
            (Whole (xs + dx * sx)) (Whole (ys + dy * sy)) (Whole dx) (Whole dy) (Whole sx) (Whole sy)
            (Whole (dx - dy - (D + dy))) (Blitter_setPixel b (Whole (xs + i * sx)) (Whole (ys + j * sy)) False st) = Some st'"
      and l: "length (st_writes st') = length (st_writes (Blitter_setPixel b (Whole (xs + i * sx)) (Whole (ys + j * sy)) False st)) + nat (dx - (i + 1)) + 1"
      by blast
    have step': "bresenham_loop b (Whole (xs + i * sx)) (Whole (ys + j * sy))
            (Whole (xs + dx * sx)) (Whole (ys + dy * sy)) (Whole dx) (Whole dy) (Whole sx) (Whole sy)
            (Whole (dx - dy - D)) st = Some st'"
      using ne xstep False s
      by (subst step) (simp add: algebra_simps)
    have "nat (dx - i) = nat (dx - (i + 1)) + 1" using i by arith
    then show ?thesis using step' l by (simp add: writes_setPixel_len)
  qed
qed

lemma bresenham_major_y:
  fixes dx dy i j D sx sy xs ys :: int
  assumes "0 \<le> dx" "dx < dy" "sx = 1 \<or> sx = - 1" "sy = 1 \<or> sy = - 1"
    and B: "\<bar>xs\<bar> \<le> 2 ^ 50" "\<bar>ys\<bar> \<le> 2 ^ 50" "dy \<le> 2 ^ 51"
    and "j \<le> dy" "0 \<le> i" "i \<le> j" "D = i * dy - j * dx" "dx - 2 * dy < 2 * D" "2 * D < dy"
  shows "\<exists>st'. bresenham_loop b (Whole (xs + i * sx)) (Whole (ys + j * sy))
            (Whole (xs + dx * sx)) (Whole (ys + dy * sy)) (Whole dx) (Whole dy) (Whole sx) (Whole sy)
            (Whole (dx - dy - D)) st = Some st'
          \<and> length (st_writes st') = length (st_writes st) + nat (dy - j) + 1"
  using assms(8-)
proof (induction "nat (dy - j)" arbitrary: i j D st)
  case 0
  note I = 0(2-)
  from 0 have j: "j = dy" by simp
  have dy: "0 < dy" using assms(1,2) by simp
  have i: "i = dx"
  proof (rule ccontr)
    assume "i \<noteq> dx"
    then consider "i - dx \<ge> 1" | "i - dx \<le> - 1" by linarith
    then show False
    proof cases
      case 1
      then have "dy * 1 \<le> dy * (i - dx)" using dy by (intro mult_left_mono) auto
      moreover have "D = dy * (i - dx)" using I(4) j by (simp add: algebra_simps)
      ultimately show False using I(6) dy by linarith
    next
      case 2
      then have "dy * (i - dx) \<le> dy * (- 1)" using dy by (intro mult_left_mono) auto
      moreover have "D = dy * (i - dx)" using I(4) j by (simp add: algebra_simps)
      ultimately show False using I(5) assms(1) by linarith
    qed
  qed
  have px: "\<bar>xs + i * sx\<bar> \<le> 2 ^ 52" using B(1,3) I assms(3) by (intro step_bound) auto
  have py: "\<bar>ys + j * sy\<bar> \<le> 2 ^ 52" using B(2,3) I assms(4) by (intro step_bound) auto
  have pe: "\<bar>dx - dy - D\<bar> \<le> 2 ^ 52" using I(5,6) B(3) assms(1,2) by simp
  have dxb: "dx \<le> 2 ^ 51" using assms(2) B(3) by simp
  have dy0: "0 \<le> dy" using dy by simp
  note step = bresenham_loop_Whole [OF px py pe assms(1) dxb dy0 B(3) assms(3,4)]
  show ?case
    by (subst step) (simp add: i j writes_setPixel_len)
next
  case (Suc n)
  note I = Suc.prems
  from Suc have j: "j < dy" by linarith
  have ne: "ys + j * sy \<noteq> ys + dy * sy" using j assms(4) by auto
  have ystep: "2 * (dx - dy - D) < dx" using I(5) by arith
  have m: "n = nat (dy - (j + 1))" using Suc.hyps(2) by linarith
  have n: "nat (dy - j) = nat (dy - (j + 1)) + 1" using j by arith
  have px: "\<bar>xs + i * sx\<bar> \<le> 2 ^ 52" using B(1,3) I assms(3) by (intro step_bound) auto
  have py: "\<bar>ys + j * sy\<bar> \<le> 2 ^ 52" using B(2,3) I assms(4) by (intro step_bound) auto
  have pe: "\<bar>dx - dy - D\<bar> \<le> 2 ^ 52" using I(5,6) B(3) assms(1,2) by simp
  have dxb: "dx \<le> 2 ^ 51" using assms(2) B(3) by simp
  have dy0: "0 \<le> dy" using assms(1,2) by simp
  note step = bresenham_loop_Whole [OF px py pe assms(1) dxb dy0 B(3) assms(3,4)]
  show ?case
  proof (cases "- dy < 2 * (dx - dy - D)")
    case True
    have "\<exists>st'. bresenham_loop b (Whole (xs + (i + 1) * sx)) (Whole (ys + (j + 1) * sy))
            (Whole (xs + dx * sx)) (Whole (ys + dy * sy)) (Whole dx) (Whole dy) (Whole sx) (Whole sy)
            (Whole (dx - dy - (D + dy - dx))) (Blitter_setPixel b (Whole (xs + i * sx)) (Whole (ys + j * sy)) False st) = Some st'
          \<and> length (st_writes st') = length (st_writes (Blitter_setPixel b (Whole (xs + i * sx)) (Whole (ys + j * sy)) False st)) + nat (dy - (j + 1)) + 1"
      using j True I assms(2)
      by (intro Suc.hyps(1) [OF m]) (simp_all add: algebra_simps)
    then obtain st' where
      s: "bresenham_loop b (Whole (xs + (i + 1) * sx)) (Whole (ys + (j + 1) * sy))
            (Whole (xs + dx * sx)) (Whole (ys + dy * sy)) (Whole dx) (Whole dy) (Whole sx) (Whole sy)
            (Whole (dx - dy - (D + dy - dx))) (Blitter_setPixel b (Whole (xs + i * sx)) (Whole (ys + j * sy)) False st) = Some st'"
      and l: "length (st_writes st') = length (st_writes (Blitter_setPixel b (Whole (xs + i * sx)) (Whole (ys + j * sy)) False st)) + nat (dy - (j + 1)) + 1"
      by blast
    have step': "bresenham_loop b (Whole (xs + i * sx)) (Whole (ys + j * sy))
            (Whole (xs + dx * sx)) (Whole (ys + dy * sy)) (Whole dx) (Whole dy) (Whole sx) (Whole sy)
            (Whole (dx - dy - D)) st = Some st'"
      using ne ystep True s
      by (subst step) (simp add: algebra_simps)
    show ?thesis using step' l n by (simp add: writes_setPixel_len)
  next
    case False
    have "\<exists>st'. bresenham_loop b (Whole (xs + i * sx)) (Whole (ys + (j + 1) * sy))
            (Whole (xs + dx * sx)) (Whole (ys + dy * sy)) (Whole dx) (Whole dy) (Whole sx) (Whole sy)
            (Whole (dx - dy - (D - dx))) (Blitter_setPixel b (Whole (xs + i * sx)) (Whole (ys + j * sy)) False st) = Some st'
          \<and> length (st_writes st') = length (st_writes (Blitter_setPixel b (Whole (xs + i * sx)) (Whole (ys + j * sy)) False st)) + nat (dy - (j + 1)) + 1"
      using j False I assms(1,2)
      by (intro Suc.hyps(1) [OF m]) (simp_all add: algebra_simps)
    then obtain st' where
      s: "bresenham_loop b (Whole (xs + i * sx)) (Whole (ys + (j + 1) * sy))
            (Whole (xs + dx * sx)) (Whole (ys + dy * sy)) (Whole dx) (Whole dy) (Whole sx) (Whole sy)
            (Whole (dx - dy - (D - dx))) (Blitter_setPixel b (Whole (xs + i * sx)) (Whole (ys + j * sy)) False st) = Some st'"
      and l: "length (st_writes st') = length (st_writes (Blitter_setPixel b (Whole (xs + i * sx)) (Whole (ys + j * sy)) False st)) + nat (dy - (j + 1)) + 1"
      by blast
    have step': "bresenham_loop b (Whole (xs + i * sx)) (Whole (ys + j * sy))
            (Whole (xs + dx * sx)) (Whole (ys + dy * sy)) (Whole dx) (Whole dy) (Whole sx) (Whole sy)
            (Whole (dx - dy - D)) st = Some st'"
      using ne ystep False s
      by (subst step) (simp add: algebra_simps)
    show ?thesis using step' l n by (simp add: writes_setPixel_len)
  qed
qed

lemma bresenham_start:
  fixes X0 Y0 X1 Y1 :: int
  assumes "\<bar>X0\<bar> \<le> 2 ^ 50" "\<bar>Y0\<bar> \<le> 2 ^ 50" "\<bar>X1\<bar> \<le> 2 ^ 50" "\<bar>Y1\<bar> \<le> 2 ^ 50"
  shows "\<exists>st'. bresenham_loop b (Whole X0) (Whole Y0) (Whole X1) (Whole Y1)
            (Whole \<bar>X1 - X0\<bar>) (Whole \<bar>Y1 - Y0\<bar>)
            (Whole (if X0 < X1 then 1 else - 1)) (Whole (if Y0 < Y1 then 1 else - 1))
            (Whole (\<bar>X1 - X0\<bar> - \<bar>Y1 - Y0\<bar>)) st = Some st'
          \<and> length (st_writes st') = length (st_writes st) + nat (max \<bar>X1 - X0\<bar> \<bar>Y1 - Y0\<bar>) + 1"
proof -
  define dx dy sx sy :: int where "dx = \<bar>X1 - X0\<bar>" and "dy = \<bar>Y1 - Y0\<bar>"
    and "sx = (if X0 < X1 then 1 else - 1)" and "sy = (if Y0 < Y1 then 1 else - 1)"
  have x1: "X1 = X0 + dx * sx" and y1: "Y1 = Y0 + dy * sy"
    by (auto simp: dx_def dy_def sx_def sy_def)
  have s: "sx = 1 \<or> sx = - 1" "sy = 1 \<or> sy = - 1" by (auto simp: sx_def sy_def)
  have nn: "0 \<le> dx" "0 \<le> dy" by (auto simp: dx_def dy_def)
  have bb: "dx \<le> 2 ^ 51" "dy \<le> 2 ^ 51" using assms by (auto simp: dx_def dy_def)
  have goal: "\<exists>st'. bresenham_loop b (Whole (X0 + 0 * sx)) (Whole (Y0 + 0 * sy))
            (Whole (X0 + dx * sx)) (Whole (Y0 + dy * sy)) (Whole dx) (Whole dy) (Whole sx) (Whole sy)
            (Whole (dx - dy - 0)) st = Some st'
          \<and> length (st_writes st') = length (st_writes st) + nat (max dx dy) + 1"
  proof (cases "dx = 0 \<and> dy = 0")
    case True
    have "bresenham_loop b (Whole X0) (Whole Y0) (Whole X0) (Whole Y0) (Whole 0) (Whole 0)
        (Whole sx) (Whole sy) (Whole 0) st = Some (Blitter_setPixel b (Whole X0) (Whole Y0) False st)"
      using assms(1,2) s by (subst bresenham_loop_Whole) simp_all
    then show ?thesis using True by (simp add: writes_setPixel_len)
  next
    case False
    show ?thesis
    proof (cases "dy \<le> dx")
      case True
      then have "0 < dx" using False nn by linarith
      from bresenham_major_x [OF this nn(2) True s assms(1,2) bb(1), of 0 0 0 b st] True \<open>0 < dx\<close>
      show ?thesis by (simp add: max_def)
    next
      case F: False
      then have "dx < dy" by simp
      from bresenham_major_y [OF nn(1) this s assms(1,2) bb(2), of 0 0 0 b st] this nn
      show ?thesis by (simp add: max_def)
    qed
  qed
  then show ?thesis
    unfolding x1 [symmetric] y1 [symmetric] by (simp add: dx_def dy_def sx_def sy_def)
qed

lemma dda_loop_returns:
  assumes "0 \<le> i" "s < 2 ^ 53"
  shows "\<exists>st'. dda_loop b (Whole i) (Fin s) x y sx sy st = Some st'
     \<and> length (st_writes st') = length (st_writes st) + nat (\<lfloor>s\<rfloor> - i + 1)"
  using assms(1)
proof (induction "nat (\<lfloor>s\<rfloor> - i + 1)" arbitrary: i x y st)
  case 0
  then have "\<lfloor>s\<rfloor> < i" by linarith
  then have "\<not> of_int i \<le> s" by (simp add: floor_less_iff)
  then show ?case using 0 by (subst dda_loop.simps) (simp add: Whole_def)
next
  case (Suc n)
  then have f: "i \<le> \<lfloor>s\<rfloor>" by linarith
  then have le: "of_int i \<le> s" by (simp add: le_floor_iff)
  have "real_of_int i < 2 ^ 53" using le assms(2) by linarith
  then have "i < 2 ^ 53" by (simp only: of_int_less_numeral_power_cancel_iff)
  then have "\<bar>i + 1\<bar> \<le> 2 ^ 53" using Suc.prems by simp
  then have inc: "Whole i + Fin 1 = Whole (i + 1)"
    using Whole_add [of i 1] by (simp add: Fin_Whole_numeral)
  have "n = nat (\<lfloor>s\<rfloor> - (i + 1) + 1)" using Suc.hyps(2) by linarith
  from Suc.hyps(1) [OF this, of "x + sx" "y + sy" "Blitter_setPixel b x y False st"] Suc.prems
  obtain st' where
    s: "dda_loop b (Whole (i + 1)) (Fin s) (x + sx) (y + sy) sx sy
          (Blitter_setPixel b x y False st) = Some st'"
    and l: "length (st_writes st') = length (st_writes (Blitter_setPixel b x y False st))
          + nat (\<lfloor>s\<rfloor> - (i + 1) + 1)"
    by auto
  have step: "dda_loop b (Whole i) (Fin s) x y sx sy st = Some st'"
    using le s by (subst dda_loop.simps) (simp add: inc, simp add: Whole_def)
  have "nat (\<lfloor>s\<rfloor> - i + 1) = nat (\<lfloor>s\<rfloor> - (i + 1) + 1) + 1" using f by linarith
  then show ?case using step l by (simp add: writes_setPixel_len)
qed

lemma if_Whole: "(if c then Fin 1 else Fin (- 1)) = Whole (if c then 1 else - 1)"
  by (simp add: Whole_def)

lemma floor_abs_bound:
  fixes x :: real
  assumes "\<bar>x\<bar> \<le> 2 ^ n"
  shows "\<bar>\<lfloor>x\<rfloor>\<bar> \<le> 2 ^ n"
proof -
  have "\<lfloor>x\<rfloor> \<le> 2 ^ n" using assms by (simp add: floor_le_iff abs_le_iff)
  moreover have "- (2 ^ n) \<le> \<lfloor>x\<rfloor>" using assms by (simp add: le_floor_iff abs_le_iff)
  ultimately show ?thesis by simp
qed

lemma drawLineBresenham_bounded:
  assumes c: "clipped b a0 b0 clip = Some (\<lparr>px = Fin x0, py = Fin y0\<rparr>, \<lparr>px = Fin x1, py = Fin y1\<rparr>)"
    and B: "\<bar>x0\<bar> \<le> 2 ^ 50" "\<bar>y0\<bar> \<le> 2 ^ 50" "\<bar>x1\<bar> \<le> 2 ^ 50" "\<bar>y1\<bar> \<le> 2 ^ 50"
  shows "\<exists>st'. drawLineBresenham b a0 b0 clip st = Some st'
     \<and> length (st_writes st') =
         length (st_writes st) + nat (max \<bar>\<lfloor>x1\<rfloor> - \<lfloor>x0\<rfloor>\<bar> \<bar>\<lfloor>y1\<rfloor> - \<lfloor>y0\<rfloor>\<bar>) + 1"
proof -
  note F = floor_abs_bound [OF B(1)] floor_abs_bound [OF B(2)]
    floor_abs_bound [OF B(3)] floor_abs_bound [OF B(4)]
  have dx: "Whole \<lfloor>x1\<rfloor> - Whole \<lfloor>x0\<rfloor> = Whole (\<lfloor>x1\<rfloor> - \<lfloor>x0\<rfloor>)"
    using F by (intro Whole_diff) (simp; linarith)
  have dy: "Whole \<lfloor>y1\<rfloor> - Whole \<lfloor>y0\<rfloor> = Whole (\<lfloor>y1\<rfloor> - \<lfloor>y0\<rfloor>)"
    using F by (intro Whole_diff) (simp; linarith)
  have e: "Whole \<bar>\<lfloor>x1\<rfloor> - \<lfloor>x0\<rfloor>\<bar> - Whole \<bar>\<lfloor>y1\<rfloor> - \<lfloor>y0\<rfloor>\<bar>
      = Whole (\<bar>\<lfloor>x1\<rfloor> - \<lfloor>x0\<rfloor>\<bar> - \<bar>\<lfloor>y1\<rfloor> - \<lfloor>y0\<rfloor>\<bar>)"
    using F by (intro Whole_diff) (simp; linarith)
  show ?thesis
    using bresenham_start [OF F, of b st]
    by (simp add: drawLineBresenham_def c Let_def Whole_def [symmetric] dx dy e if_Whole)
qed

lemma writes_setPixel_le:
  "length (st_writes (Blitter_setPixel b x y clip st)) \<le> length (st_writes st) + 1"
  by (simp add: Blitter_setPixel_def setPixel_def split_def Let_def)

lemma drawLineDDA_bounded:
  assumes c: "clipped b a0 b0 clip = Some (\<lparr>px = Fin x0, py = Fin y0\<rparr>, \<lparr>px = Fin x1, py = Fin y1\<rparr>)"
    and B: "\<bar>x0\<bar> \<le> 2 ^ 50" "\<bar>y0\<bar> \<le> 2 ^ 50" "\<bar>x1\<bar> \<le> 2 ^ 50" "\<bar>y1\<bar> \<le> 2 ^ 50"
  shows "\<exists>s st'. Math_max (Math_abs (Fin x1 - Fin x0)) (Math_abs (Fin y1 - Fin y0)) = Fin s
     \<and> drawLineDDA b a0 b0 clip st = Some st'
     \<and> length (st_writes st') \<le> length (st_writes st) + nat \<lfloor>s\<rfloor> + 1"
proof -
  have "\<bar>x1 - x0\<bar> \<le> 2 ^ 51" using B by simp
  from fl_bound [OF this] obtain dX where dX: "Fin x1 - Fin x0 = Fin dX" "\<bar>dX\<bar> \<le> 2 ^ 51"
    by (auto simp: minus_Fin)
  have "\<bar>y1 - y0\<bar> \<le> 2 ^ 51" using B by simp
  from fl_bound [OF this] obtain dY where dY: "Fin y1 - Fin y0 = Fin dY" "\<bar>dY\<bar> \<le> 2 ^ 51"
    by (auto simp: minus_Fin)
  define s where "s = max \<bar>dX\<bar> \<bar>dY\<bar>"
  have s: "Math_max (Math_abs (Fin x1 - Fin x0)) (Math_abs (Fin y1 - Fin y0)) = Fin s"
    by (simp add: dX dY Math_abs_Fin Math_max_Fin s_def)
  have s0: "0 \<le> s" and sb: "s < 2 ^ 53" using dX(2) dY(2) by (auto simp: s_def)
  show ?thesis
  proof (cases "s = 0")
    case True
    have "drawLineDDA b a0 b0 clip st = Some (Blitter_setPixel b (Fin x0) (Fin y0) clip st)"
      using True s by (simp add: drawLineDDA_def c Let_def)
    then show ?thesis using s writes_setPixel_le [of b "Fin x0" "Fin y0" clip st] by simp
  next
    case False
    from dda_loop_returns [OF _ sb, of 0 b "Fin x0" "Fin y0" "Fin dX / Fin s" "Fin dY / Fin s" st]
    obtain st' where
      r: "dda_loop b (Whole 0) (Fin s) (Fin x0) (Fin y0) (Fin dX / Fin s) (Fin dY / Fin s) st = Some st'"
      and l: "length (st_writes st') = length (st_writes st) + nat (\<lfloor>s\<rfloor> - 0 + 1)"
      by auto
    have "0 \<le> \<lfloor>s\<rfloor>" using s0 by simp
    then have n: "nat (\<lfloor>s\<rfloor> - 0 + 1) = nat \<lfloor>s\<rfloor> + 1" by (simp add: nat_add_distrib)
    have "drawLineDDA b a0 b0 clip st = Some st'"
      using False r s dX(1) dY(1) by (simp add: drawLineDDA_def c Let_def Whole_def)
    then show ?thesis using s l n by simp
  qed
qed

lemma clipped_bounded:
  assumes "clipped b \<lparr>px = Fin ax, py = Fin ay\<rparr> \<lparr>px = Fin bx, py = Fin by\<rparr> clip = Some (a', b')"
    and B: "\<bar>ax\<bar> \<le> 2 ^ 48" "\<bar>ay\<bar> \<le> 2 ^ 48" "\<bar>bx\<bar> \<le> 2 ^ 48" "\<bar>by\<bar> \<le> 2 ^ 48"
  shows "\<exists>x0 y0 x1 y1. a' = \<lparr>px = Fin x0, py = Fin y0\<rparr> \<and> b' = \<lparr>px = Fin x1, py = Fin y1\<rparr>
           \<and> \<bar>x0\<bar> \<le> 2 ^ 50 \<and> \<bar>y0\<bar> \<le> 2 ^ 50 \<and> \<bar>x1\<bar> \<le> 2 ^ 50 \<and> \<bar>y1\<bar> \<le> 2 ^ 50"
proof (cases clip)
  case True
  with assms(1) have "clipLineLiangBarsky \<lparr>px = Fin ax, py = Fin ay\<rparr> \<lparr>px = Fin bx, py = Fin by\<rparr> (clipping b)
      = Some (a', b')" by (simp add: clipped_def)
  from clip_bounded [OF this B] show ?thesis .
next
  case False
  with assms(1) have "a' = \<lparr>px = Fin ax, py = Fin ay\<rparr>" "b' = \<lparr>px = Fin bx, py = Fin by\<rparr>"
    by (auto simp: clipped_def)
  moreover have "\<bar>ax\<bar> \<le> 2 ^ 50" "\<bar>ay\<bar> \<le> 2 ^ 50" "\<bar>bx\<bar> \<le> 2 ^ 50" "\<bar>by\<bar> \<le> 2 ^ 50"
    using B by simp_all
  ultimately show ?thesis by blast
qed

text \<open>
  Claim C3, amended. For all finite endpoints with coordinates of magnitude at most
  \<open>2 ^ 48\<close>, integer or not, and clipping on or off, both rasterisers return. When the
  clipper rejects the segment nothing is drawn. Otherwise, on the endpoints
  \<open>(x0, y0)\<close>, \<open>(x1, y1)\<close> left by the clipping step, \<open>drawLineDDA\<close> performs at most
  \<open>\<lfloor>steps\<rfloor> + 1\<close> pixel writes, where \<open>steps\<close> is the number it computes as
  \<^verbatim>\<open>Math.max(Math.abs(x1 - x0), Math.abs(y1 - y0))\<close>, and \<open>drawLineBresenham\<close> performs
  \<open>max \<bar>\<lfloor>x1\<rfloor> - \<lfloor>x0\<rfloor>\<bar> \<bar>\<lfloor>y1\<rfloor> - \<lfloor>y0\<rfloor>\<bar> + 1\<close>.
\<close>

theorem line_drawing_returns_on_finite:
  assumes "\<bar>ax\<bar> \<le> 2 ^ 48" "\<bar>ay\<bar> \<le> 2 ^ 48" "\<bar>bx\<bar> \<le> 2 ^ 48" "\<bar>by\<bar> \<le> 2 ^ 48"
  shows
  "case clipped b \<lparr>px = Fin ax, py = Fin ay\<rparr> \<lparr>px = Fin bx, py = Fin by\<rparr> clip of
     None \<Rightarrow>
       drawLineDDA b \<lparr>px = Fin ax, py = Fin ay\<rparr> \<lparr>px = Fin bx, py = Fin by\<rparr> clip st = Some st
     \<and> drawLineBresenham b \<lparr>px = Fin ax, py = Fin ay\<rparr> \<lparr>px = Fin bx, py = Fin by\<rparr> clip st = Some st
   | Some (a', b') \<Rightarrow>
       (\<exists>x0 y0 x1 y1 steps. a' = \<lparr>px = Fin x0, py = Fin y0\<rparr> \<and> b' = \<lparr>px = Fin x1, py = Fin y1\<rparr>
        \<and> Math_max (Math_abs (px b' - px a')) (Math_abs (py b' - py a')) = Fin steps
        \<and> (\<exists>st'. drawLineDDA b \<lparr>px = Fin ax, py = Fin ay\<rparr> \<lparr>px = Fin bx, py = Fin by\<rparr> clip st = Some st'
              \<and> length (st_writes st') \<le> length (st_writes st) + nat \<lfloor>steps\<rfloor> + 1)
        \<and> (\<exists>st'. drawLineBresenham b \<lparr>px = Fin ax, py = Fin ay\<rparr> \<lparr>px = Fin bx, py = Fin by\<rparr> clip st = Some st'
              \<and> length (st_writes st') =
                  length (st_writes st) + nat (max \<bar>\<lfloor>x1\<rfloor> - \<lfloor>x0\<rfloor>\<bar> \<bar>\<lfloor>y1\<rfloor> - \<lfloor>y0\<rfloor>\<bar>) + 1))"
proof (cases "clipped b \<lparr>px = Fin ax, py = Fin ay\<rparr> \<lparr>px = Fin bx, py = Fin by\<rparr> clip")
  case None
  then show ?thesis by (simp add: drawLineDDA_def drawLineBresenham_def)
next
  case (Some p)
  obtain a' b' where p: "p = (a', b')" by (cases p)
  from clipped_bounded [OF Some [unfolded p] assms] obtain x0 y0 x1 y1 where
    e: "a' = \<lparr>px = Fin x0, py = Fin y0\<rparr>" "b' = \<lparr>px = Fin x1, py = Fin y1\<rparr>"
    and B: "\<bar>x0\<bar> \<le> 2 ^ 50" "\<bar>y0\<bar> \<le> 2 ^ 50" "\<bar>x1\<bar> \<le> 2 ^ 50" "\<bar>y1\<bar> \<le> 2 ^ 50"
    by blast
  note c = Some [unfolded p e]
  from drawLineDDA_bounded [OF c B, of st] drawLineBresenham_bounded [OF c B, of st]
  show ?thesis unfolding Some p e by auto
qed

theorem line_drawing_returns_on_finite_witness:
  "\<bar>0 :: real\<bar> \<le> 2 ^ 48 \<and> \<bar>3 :: real\<bar> \<le> 2 ^ 48 \<and> \<bar>1 :: real\<bar> \<le> 2 ^ 48
   \<and> (\<exists>st'. drawLineDDA
          \<lparr>width = 4, height = 2, clipping = Clipping_new (Fin 0) (Fin 0) (Fin 4) (Fin 2)\<rparr>
          \<lparr>px = Fin 0, py = Fin 0\<rparr> \<lparr>px = Fin 3, py = Fin 1\<rparr> False
          \<lparr>st_color = Color4_new (Fin 255) (Fin 255) (Fin 255) (Fin 255) True,
           st_buffer = [0, 0, 0, 0, 0, 0, 0, 0], st_writes = []\<rparr> = Some st'
        \<and> length (st_writes st') \<le> 4)
   \<and> (\<exists>st'. drawLineBresenham
          \<lparr>width = 4, height = 2, clipping = Clipping_new (Fin 0) (Fin 0) (Fin 4) (Fin 2)\<rparr>
          \<lparr>px = Fin 0, py = Fin 0\<rparr> \<lparr>px = Fin 3, py = Fin 1\<rparr> False
          \<lparr>st_color = Color4_new (Fin 255) (Fin 255) (Fin 255) (Fin 255) True,
           st_buffer = [0, 0, 0, 0, 0, 0, 0, 0], st_writes = []\<rparr> = Some st'
        \<and> length (st_writes st') = 4)"
  using line_drawing_returns_on_finite [of 0 0 3 1
      "\<lparr>width = 4, height = 2, clipping = Clipping_new (Fin 0) (Fin 0) (Fin 4) (Fin 2)\<rparr>" False
      "\<lparr>st_color = Color4_new (Fin 255) (Fin 255) (Fin 255) (Fin 255) True,
           st_buffer = [0, 0, 0, 0, 0, 0, 0, 0], st_writes = []\<rparr>"]
  by (simp add: clipped_def minus_Fin Math_abs_Fin Math_max_Fin)

subsection \<open>The two rasterisers on the same segment\<close>


lemma toAABBGGRR_again [simp]:
  "fst (toAABBGGRR (snd (toAABBGGRR c))) = fst (toAABBGGRR c)"
  "snd (toAABBGGRR (snd (toAABBGGRR c))) = snd (toAABBGGRR c)"
  by (cases "cache c"; simp add: toAABBGGRR_def Let_def getAABBGGRR_def)+










section \<open>Properties of the scanline filler\<close>

lemma span_loop_Fin_step:
  "span_loop (Fin x) (Fin xe) (Fin pos) c buf =
     (if x < xe then span_loop (Fin x + Fin 1) (Fin xe) (Fin pos) c (store buf (Fin pos + Fin x) c)
      else Some buf)"
  by (subst span_loop.simps) simp

lemma scanline_loop_Fin_step:
  "scanline_loop (Fin w) (Fin y) (Fin ye) (Fin pos) (Fin xl) (Fin xr) (Fin sl) (Fin sr) c buf =
     (if y < ye
      then Option.bind
             (span_loop (Fin (max 0 (of_int \<lceil>xl\<rceil>))) (Fin (min w (of_int \<lceil>xr\<rceil>))) (Fin pos) c buf)
             (\<lambda>buf'. scanline_loop (Fin w) (Fin y + Fin 1) (Fin ye) (Fin pos + Fin w)
                (Fin xl + Fin sl) (Fin xr + Fin sr) (Fin sl) (Fin sr) c buf')
      else Some buf)"
  by (subst scanline_loop.simps) (simp add: Math_max_Fin Math_min_Fin)

lemma bind_weak_cong: "m = m' \<Longrightarrow> Option.bind m f = Option.bind m' f"
  by simp

lemma list_update_Cons_numeral: "(x # xs)[numeral v := y] = x # xs[numeral v - 1 := y]"
  by (simp add: numeral_eq_Suc)

lemma store_literal:
  "store buf (Fin (numeral n)) v =
     (if numeral n < length buf then buf[numeral n := ToInt32 v] else buf)"
  "store buf (Fin 0) v = (if 0 < length buf then buf[0 := ToInt32 v] else buf)"
  "store buf (Fin 1) v = (if 1 < length buf then buf[1 := ToInt32 v] else buf)"
  by (simp_all add: store_def)

text \<open>
  Every point of the triangle \<open>(-5, -5)\<close>, \<open>(3, -5)\<close>, \<open>(-5, 3)\<close> has \<open>x + y \<le> -2\<close>, so
  none of them is in a buffer, whose pixels have \<open>0 \<le> x\<close> and \<open>0 \<le> y\<close>.
\<close>

lemma slip_triangle_misses_buffer:
  fixes u v w :: real
  assumes "0 \<le> u" "0 \<le> v" "0 \<le> w" "u + v + w = 1"
  shows "(u * (- 5) + v * 3 + w * (- 5)) + (u * (- 5) + v * (- 5) + w * 3) \<le> - 2"
  using assms by simp

text \<open>
  Claim C8, at a triangle that has no point in the buffer. The triangle \<open>(-5, -5)\<close>,
  \<open>(3, -5)\<close>, \<open>(-5, 3)\<close> is entirely off a 2 by 2 buffer, and the filler should write
  nothing. \<open>rasterScanlines\<close> moves the first row from \<open>-5\<close> to \<open>0\<close> without advancing
  the two edges by the five rows it skips, so the rows 0 and 1 are filled with the
  spans of the rows \<open>-5\<close> and \<open>-4\<close>, from \<open>x = -5\<close> to \<open>x = 3\<close> and \<open>x = 2\<close>: all four
  cells of the buffer are set.
\<close>

theorem fill_clamped_start_slip:
  "map_option st_buffer
     (fillFlatScanline
        \<lparr>width = 2, height = 2, clipping = Clipping_new (Fin 0) (Fin 0) (Fin 2) (Fin 2)\<rparr>
        \<lparr>tri_a = \<lparr>px = Fin (- 5), py = Fin (- 5)\<rparr>, tri_b = \<lparr>px = Fin 3, py = Fin (- 5)\<rparr>,
         tri_c = \<lparr>px = Fin (- 5), py = Fin 3\<rparr>\<rparr>
        \<lparr>st_color = Color4_new (Fin 255) (Fin 255) (Fin 255) (Fin 255) True,
         st_buffer = [0, 0, 0, 0], st_writes = []\<rparr>)
   = Some [4294967295, 4294967295, 4294967295, 4294967295]"
  by (simp add: fillFlatScanline_def rasterOrder_def fillFlatTop_def fillFlatBottom_def
      rasterScanlines_def Let_def Math_max_Fin Math_min_Fin scanline_loop_Fin_step
      span_loop_Fin_step store_literal toAABBGGRR_def Color4_new_def getAABBGGRR_def
      shl_def bor_def of_int32_def trunc_def clamp_def list_update_Cons_numeral minus_Fin
      cong: bind_weak_cong)


end
